theory Spec2Isabelle
  imports Main
begin

section \<open>The extensible string buffer of dwarfdump (esb.c)\<close>

text \<open>
  The model follows \<^verbatim>\<open>src/dwarfdump/esb.c\<close> function by function, for the build without
  \<^verbatim>\<open>_WIN32\<close>. The C library is not part of the source: \<^verbatim>\<open>malloc\<close>, \<^verbatim>\<open>realloc\<close>,
  \<^verbatim>\<open>strlen\<close>, \<^verbatim>\<open>strncpy\<close>, \<^verbatim>\<open>strcpy\<close> and \<^verbatim>\<open>vsnprintf\<close> are modelled after the C
  standard, and everything the standard leaves open is a parameter: how large a request
  the allocator satisfies, what fresh memory holds, whether \<^verbatim>\<open>realloc\<close> moves the block,
  and what a failing conversion has stored before it failed. \<^verbatim>\<open>esb_open_null_device\<close>
  and \<^verbatim>\<open>esb_close_null_device\<close> serve the \<^verbatim>\<open>_WIN32\<close> build only and are left out.
\<close>

subsection \<open>Bytes, sizes and C strings\<close>

definition NUL :: char where
  "NUL = CHR 0x00"

text \<open>
  \<^verbatim>\<open>size_t\<close> is 64 bits wide and \<^verbatim>\<open>int\<close> 32 bits. Sizes are natural numbers. The
  conversions between the two types and the subtraction of sizes wrap around as in C.
  In \<open>init_esb_string\<close> the terminator is added to \<^verbatim>\<open>alloc_size\<close> or to a length that
  is at least \<^verbatim>\<open>alloc_size\<close>, and \<^verbatim>\<open>esb_alloc_size\<close> accepts every \<^verbatim>\<open>size_t\<close>: that
  sum is reduced modulo \<open>2 ^ 64\<close>, and is 0 at \<^verbatim>\<open>SIZE_MAX\<close>.
  The sums \<^verbatim>\<open>esb_allocated_size + len\<close>, \<^verbatim>\<open>esb_used_bytes + len\<close> and
  \<^verbatim>\<open>len + 1\<close> add the sizes of objects that live in one address space together (a block,
  the string being appended), so they stay below \<open>2 ^ 64\<close> and are written without the
  reduction. Also \<^verbatim>\<open>esb_used_bytes += netlen - 1\<close> and \<^verbatim>\<open>esb_used_bytes += expandedlen\<close>
  add a converted \<^verbatim>\<open>int\<close>, which is a huge size when the \<^verbatim>\<open>int\<close> was negative: there the
  reduction is written too.
\<close>

definition SIZE_WRAP :: nat where
  "SIZE_WRAP = 2 ^ 64"

definition SIZE_MAX :: nat where
  "SIZE_MAX = 2 ^ 64 - 1"

definition INT_MAX :: int where
  "INT_MAX = 2 ^ 31 - 1"

definition size_t_sub :: "nat \<Rightarrow> nat \<Rightarrow> nat" where
  "size_t_sub a b = (if b \<le> a then a - b else a + SIZE_WRAP - b)"

definition size_t_of_int :: "int \<Rightarrow> nat" where
  "size_t_of_int i = nat (i mod int SIZE_WRAP)"

definition int_of_size_t :: "nat \<Rightarrow> int" where
  "int_of_size_t n =
     (let m = int (n mod 2 ^ 32) in if m \<le> INT_MAX then m else m - 2 ^ 32)"

text \<open>
  A \<^verbatim>\<open>const char *\<close> argument is the array of bytes it points to, up to the end of that
  object. \<open>strlen\<close> is \<open>None\<close> when the array holds no terminator: the scan would leave
  the object.
\<close>

definition c_str :: "char list \<Rightarrow> char list" where
  "c_str bs = takeWhile (\<lambda>c. c \<noteq> NUL) bs"

definition strlen :: "char list \<Rightarrow> nat option" where
  "strlen bs = (if NUL \<in> set bs then Some (length (c_str bs)) else None)"

text \<open>
  The bytes \<^verbatim>\<open>strncpy(dst, src, n)\<close> stores: the first \<open>n\<close> bytes of \<open>src\<close>, or the
  string and NUL padding up to \<open>n\<close> bytes when the string is shorter. \<open>None\<close> when it
  would read past the end of \<open>src\<close>.
\<close>

definition strncpy_bytes :: "char list \<Rightarrow> nat \<Rightarrow> char list option" where
  "strncpy_bytes src n =
     (let t = length (c_str src)
      in if n \<le> t then Some (take n src)
         else if t < length src then Some (c_str src @ replicate (n - t) NUL)
         else None)"

subsection \<open>The process: heap, globals, standard error\<close>

datatype error =
    Exit_alloc nat      \<comment> \<open>"out of memory allocating n bytes", then \<^verbatim>\<open>exit(5)\<close>\<close>
  | Exit_realloc nat    \<comment> \<open>"out of memory re-allocating n bytes", then \<^verbatim>\<open>exit(5)\<close>\<close>
  | Undefined           \<comment> \<open>an access outside a live object: undefined behaviour\<close>

datatype diag =
  Bad_string_length nat nat   \<comment> \<open>"esb internal error, bad string length  full_len  < len"\<close>

type_synonym addr = nat

text \<open>
  A pointer is \<open>None\<close> (the null pointer) or the address of a block. The heap is the list
  of all blocks ever allocated: \<open>Some bytes\<close> for a live block, \<open>None\<close> for a freed
  one. \<open>alloc_size\<close> is the file's static variable of that name.
\<close>

record world =
  heap :: "char list option list"
  avail :: nat                  \<comment> \<open>the largest request the allocator satisfies\<close>
  junk :: "nat \<Rightarrow> char"         \<comment> \<open>what byte \<open>i\<close> of uninitialised memory happens to hold\<close>
  moves :: bool                 \<comment> \<open>whether \<^verbatim>\<open>realloc\<close> hands out a new block\<close>
  alloc_size :: nat
  stderr :: "diag list"

record esb_s =
  esb_string :: "addr option"
  esb_allocated_size :: nat
  esb_used_bytes :: nat

definition load :: "addr \<Rightarrow> world \<Rightarrow> char list option" where
  "load p w = (if p < length (heap w) then heap w ! p else None)"

definition malloc :: "nat \<Rightarrow> world \<Rightarrow> addr option \<times> world" where
  "malloc n w =
     (if n \<le> avail w
      then (Some (length (heap w)), w\<lparr>heap := heap w @ [Some (map (junk w) [0..<n])]\<rparr>)
      else (None, w))"

definition realloc :: "addr option \<Rightarrow> nat \<Rightarrow> world \<Rightarrow> error + (addr option \<times> world)" where
  "realloc ptr n w =
     (case ptr of
        None \<Rightarrow> Inr (malloc n w)
      | Some p \<Rightarrow>
          (case load p w of
             None \<Rightarrow> Inl Undefined
           | Some old \<Rightarrow>
               if n \<le> avail w
               then (let new = take n old @ map (junk w) [length old..<n]
                     in if moves w
                        then Inr (Some (length (heap w)),
                                  w\<lparr>heap := (heap w)[p := None] @ [Some new]\<rparr>)
                        else Inr (Some p, w\<lparr>heap := (heap w)[p := Some new]\<rparr>))
               else Inr (None, w)))"

text \<open>\<^verbatim>\<open>free\<close> accepts the null pointer; freeing a block that is not live is undefined.\<close>

definition free :: "addr option \<Rightarrow> world \<Rightarrow> error + world" where
  "free ptr w =
     (case ptr of
        None \<Rightarrow> Inr w
      | Some p \<Rightarrow>
          (case load p w of
             None \<Rightarrow> Inl Undefined
           | Some blk \<Rightarrow> Inr (w\<lparr>heap := (heap w)[p := None]\<rparr>)))"

text \<open>Storing the bytes \<open>bs\<close> at \<open>s + off\<close>. Storing nothing touches no memory.\<close>

definition store :: "addr option \<Rightarrow> nat \<Rightarrow> char list \<Rightarrow> world \<Rightarrow> error + world" where
  "store s off bs w =
     (if bs = [] then Inr w
      else case s of
        None \<Rightarrow> Inl Undefined
      | Some p \<Rightarrow>
          (case load p w of
             None \<Rightarrow> Inl Undefined
           | Some blk \<Rightarrow>
               if off + length bs \<le> length blk
               then Inr (w\<lparr>heap := (heap w)[p := Some (take off blk @ bs @ drop (off + length bs) blk)]\<rparr>)
               else Inl Undefined))"

definition strncpy :: "addr option \<Rightarrow> nat \<Rightarrow> char list \<Rightarrow> nat \<Rightarrow> world \<Rightarrow> error + world" where
  "strncpy s off src n w =
     (case strncpy_bytes src n of
        None \<Rightarrow> Inl Undefined
      | Some bs \<Rightarrow> store s off bs w)"

text \<open>\<^verbatim>\<open>strcpy(dst, src)\<close> with both pointers into the heap.\<close>

definition strcpy :: "addr option \<Rightarrow> addr option \<Rightarrow> world \<Rightarrow> error + world" where
  "strcpy dst src w =
     (case src of
        None \<Rightarrow> Inl Undefined
      | Some q \<Rightarrow>
          (case load q w of
             None \<Rightarrow> Inl Undefined
           | Some blk \<Rightarrow>
               (case strlen blk of
                  None \<Rightarrow> Inl Undefined
                | Some t \<Rightarrow> store dst 0 (take t blk @ [NUL]) w)))"

text \<open>
  A format string with its arguments is represented by what it expands to: the bytes of
  the output and whether a conversion fails. For a failing conversion \<open>expanded\<close> is what
  had been produced before the failure. \<^verbatim>\<open>vsnprintf\<close> returns the length of the whole
  expansion, or \<open>-1\<close> on failure and for an expansion longer than \<^verbatim>\<open>INT_MAX\<close>; with a
  size \<open>n > 0\<close> it stores at most \<open>n - 1\<close> bytes of the output and a terminator. The C
  standard does not say what the array holds after a failure; here it holds what the
  conversions before the failing one have produced, which may be any bytes and none.
\<close>

record rendering =
  expanded :: "char list"
  fails :: bool

definition vsnprintf_result :: "rendering \<Rightarrow> int" where
  "vsnprintf_result r =
     (if fails r \<or> INT_MAX < int (length (expanded r)) then - 1 else int (length (expanded r)))"

definition vsnprintf :: "addr option \<Rightarrow> nat \<Rightarrow> nat \<Rightarrow> rendering \<Rightarrow> world \<Rightarrow> error + (int \<times> world)" where
  "vsnprintf s off n r w =
     (case store s off (if n = 0 then [] else take (n - 1) (expanded r) @ [NUL]) w of
        Inl e \<Rightarrow> Inl e
      | Inr w' \<Rightarrow> Inr (vsnprintf_result r, w'))"

subsection \<open>The functions of esb.c\<close>

definition init_esb_string :: "esb_s \<Rightarrow> nat \<Rightarrow> world \<Rightarrow> error + (esb_s \<times> world)" where
  "init_esb_string data min_len w =
     (if esb_allocated_size data > 0 then Inr (data, w)
      else
        let min_len = (if min_len \<le> alloc_size w then (alloc_size w + 1) mod SIZE_WRAP
                       else (min_len + 1) mod SIZE_WRAP)
        in case malloc min_len w of
             (None, w1) \<Rightarrow> Inl (Exit_alloc min_len)
           | (Some d, w1) \<Rightarrow>
               (let data = data\<lparr>esb_string := Some d, esb_allocated_size := min_len\<rparr>
                in case store (esb_string data) 0 [NUL] w1 of
                     Inl e \<Rightarrow> Inl e
                   | Inr w2 \<Rightarrow> Inr (data\<lparr>esb_used_bytes := 0\<rparr>, w2)))"

definition esb_allocate_more :: "esb_s \<Rightarrow> nat \<Rightarrow> world \<Rightarrow> error + (esb_s \<times> world)" where
  "esb_allocate_more data len w =
     (let new_size = esb_allocated_size data + len;
          new_size = (if new_size < alloc_size w then alloc_size w else new_size)
      in case realloc (esb_string data) new_size w of
           Inl e \<Rightarrow> Inl e
         | Inr (None, w1) \<Rightarrow> Inl (Exit_realloc new_size)
         | Inr (Some newd, w1) \<Rightarrow>
             Inr (data\<lparr>esb_string := Some newd, esb_allocated_size := new_size\<rparr>, w1))"

definition esb_force_allocation :: "esb_s \<Rightarrow> nat \<Rightarrow> world \<Rightarrow> error + (esb_s \<times> world)" where
  "esb_force_allocation data minlen w =
     (if esb_allocated_size data < minlen
      then (let increment = minlen - esb_allocated_size data
            in esb_allocate_more data increment w)
      else Inr (data, w))"

definition esb_appendn_internal :: "esb_s \<Rightarrow> char list \<Rightarrow> nat \<Rightarrow> world \<Rightarrow> error + (esb_s \<times> world)" where
  "esb_appendn_internal data in_string len w =
     (let needed = len
      in case (if esb_allocated_size data = 0
               then (let maxlen = (if len \<ge> alloc_size w then len else alloc_size w)
                     in init_esb_string data maxlen w)
               else Inr (data, w)) of
           Inl e \<Rightarrow> Inl e
         | Inr (data, w) \<Rightarrow>
             (let remaining = size_t_sub (esb_allocated_size data) (esb_used_bytes data)
              in case (if remaining \<le> needed then esb_allocate_more data len w
                       else Inr (data, w)) of
                   Inl e \<Rightarrow> Inl e
                 | Inr (data, w) \<Rightarrow>
                     (case strncpy (esb_string data) (esb_used_bytes data) in_string len w of
                        Inl e \<Rightarrow> Inl e
                      | Inr w \<Rightarrow>
                          (let data = data\<lparr>esb_used_bytes := esb_used_bytes data + len\<rparr>
                           in case store (esb_string data) (esb_used_bytes data) [NUL] w of
                                Inl e \<Rightarrow> Inl e
                              | Inr w \<Rightarrow> Inr (data, w)))))"

definition esb_appendn :: "esb_s \<Rightarrow> char list \<Rightarrow> nat \<Rightarrow> world \<Rightarrow> error + (esb_s \<times> world)" where
  "esb_appendn data in_string len w =
     (case strlen in_string of
        None \<Rightarrow> Inl Undefined
      | Some full_len \<Rightarrow>
          if full_len < len
          then esb_appendn_internal data in_string full_len
                 (w\<lparr>stderr := stderr w @ [Bad_string_length full_len len]\<rparr>)
          else esb_appendn_internal data in_string len w)"

text \<open>The only function that tests its string argument for the null pointer.\<close>

definition esb_append :: "esb_s \<Rightarrow> char list option \<Rightarrow> world \<Rightarrow> error + (esb_s \<times> world)" where
  "esb_append data in_string w =
     (case in_string of
        None \<Rightarrow> Inr (data, w)
      | Some s \<Rightarrow>
          (case strlen s of
             None \<Rightarrow> Inl Undefined
           | Some len \<Rightarrow>
               if len \<noteq> 0 then esb_appendn_internal data s len w else Inr (data, w)))"

definition esb_get_string :: "esb_s \<Rightarrow> world \<Rightarrow> error + (addr option \<times> esb_s \<times> world)" where
  "esb_get_string data w =
     (case (if esb_allocated_size data = 0 then init_esb_string data (alloc_size w) w
            else Inr (data, w)) of
        Inl e \<Rightarrow> Inl e
      | Inr (data, w) \<Rightarrow> Inr (esb_string data, data, w))"

definition esb_empty_string :: "esb_s \<Rightarrow> world \<Rightarrow> error + (esb_s \<times> world)" where
  "esb_empty_string data w =
     (case (if esb_allocated_size data = 0 then init_esb_string data (alloc_size w) w
            else Inr (data, w)) of
        Inl e \<Rightarrow> Inl e
      | Inr (data, w) \<Rightarrow>
          (let data = data\<lparr>esb_used_bytes := 0\<rparr>
           in case store (esb_string data) 0 [NUL] w of
                Inl e \<Rightarrow> Inl e
              | Inr w \<Rightarrow> Inr (data, w)))"

definition esb_string_len :: "esb_s \<Rightarrow> nat" where
  "esb_string_len data = esb_used_bytes data"

definition esb_constructor :: "esb_s" where
  "esb_constructor = \<lparr>esb_string = None, esb_allocated_size = 0, esb_used_bytes = 0\<rparr>"

text \<open>The string is freed and the struct set to zeroes, as the constructor does.\<close>

definition esb_destructor :: "esb_s \<Rightarrow> world \<Rightarrow> error + (esb_s \<times> world)" where
  "esb_destructor data w =
     (case (if esb_string data \<noteq> None
            then (case free (esb_string data) w of
                    Inl e \<Rightarrow> Inl e
                  | Inr w \<Rightarrow> Inr (data\<lparr>esb_string := None\<rparr>, w))
            else Inr (data, w)) of
        Inl e \<Rightarrow> Inl e
      | Inr (data, w) \<Rightarrow> Inr (esb_constructor, w))"

definition esb_alloc_size :: "nat \<Rightarrow> world \<Rightarrow> world" where
  "esb_alloc_size sz w = w\<lparr>alloc_size := sz\<rparr>"

definition esb_get_allocated_size :: "esb_s \<Rightarrow> nat" where
  "esb_get_allocated_size data = esb_allocated_size data"

text \<open>
  The measuring call writes to the static \<^verbatim>\<open>a_buffer\<close>, which nothing reads: only its
  result is kept. \<^verbatim>\<open>netlen + 1\<close> is computed in \<^verbatim>\<open>int\<close> and overflows at \<^verbatim>\<open>INT_MAX\<close>.
\<close>

definition esb_allocate_more_if_needed :: "esb_s \<Rightarrow> rendering \<Rightarrow> world \<Rightarrow> error + (esb_s \<times> world)" where
  "esb_allocate_more_if_needed data in_string w =
     (let netlen = vsnprintf_result in_string
      in if netlen = INT_MAX then Inl Undefined
         else esb_force_allocation data (size_t_of_int (netlen + 1)) w)"

definition esb_append_printf_ap :: "esb_s \<Rightarrow> rendering \<Rightarrow> world \<Rightarrow> error + (esb_s \<times> world)" where
  "esb_append_printf_ap data in_string w =
     (case esb_allocate_more_if_needed data in_string w of
        Inl e \<Rightarrow> Inl e
      | Inr (data, w) \<Rightarrow>
          (let netlen = int_of_size_t (size_t_sub (esb_allocated_size data) (esb_used_bytes data))
           in case vsnprintf (esb_string data) (esb_used_bytes data) (size_t_of_int netlen)
                     in_string w of
                Inl e \<Rightarrow> Inl e
              | Inr (expandedlen, w) \<Rightarrow>
                  if expandedlen < 0 then Inr (data, w)
                  else if netlen < expandedlen
                  then Inr (data\<lparr>esb_used_bytes :=
                              (esb_used_bytes data + size_t_of_int (netlen - 1)) mod SIZE_WRAP\<rparr>, w)
                  else Inr (data\<lparr>esb_used_bytes :=
                              (esb_used_bytes data + size_t_of_int expandedlen) mod SIZE_WRAP\<rparr>, w)))"

text \<open>\<^verbatim>\<open>malloc\<close>'s result is not tested here: a null \<open>copy\<close> goes to \<^verbatim>\<open>strcpy\<close>.\<close>

definition esb_get_copy :: "esb_s \<Rightarrow> world \<Rightarrow> error + (addr option \<times> esb_s \<times> world)" where
  "esb_get_copy data w =
     (let len = esb_string_len data
      in if len \<noteq> 0
         then (case malloc (len + 1) w of
                 (copy, w) \<Rightarrow>
                   (case esb_get_string data w of
                      Inl e \<Rightarrow> Inl e
                    | Inr (src, data, w) \<Rightarrow>
                        (case strcpy copy src w of
                           Inl e \<Rightarrow> Inl e
                         | Inr w \<Rightarrow> Inr (copy, data, w))))
         else Inr (None, data, w))"

text \<open>\<^verbatim>\<open>esb_append_printf\<close> only packs its arguments for \<^verbatim>\<open>esb_append_printf_ap\<close>.\<close>

definition esb_append_printf :: "esb_s \<Rightarrow> rendering \<Rightarrow> world \<Rightarrow> error + (esb_s \<times> world)" where
  "esb_append_printf data in_string w = esb_append_printf_ap data in_string w"

subsection \<open>Observing a buffer\<close>

text \<open>The block \<open>esb_string\<close> points to, if it points to a live one.\<close>

definition storage :: "esb_s \<Rightarrow> world \<Rightarrow> char list option" where
  "storage d w = (case esb_string d of None \<Rightarrow> None | Some p \<Rightarrow> load p w)"

text \<open>The content: the first \<open>esb_used_bytes\<close> bytes of the storage.\<close>

definition content :: "esb_s \<Rightarrow> world \<Rightarrow> char list" where
  "content d w = (case storage d w of None \<Rightarrow> [] | Some blk \<Rightarrow> take (esb_used_bytes d) blk)"

text \<open>
  The C string a caller reads through a pointer: \<open>None\<close> for the null pointer, a freed
  block or a block without terminator.
\<close>

definition string_at :: "addr option \<Rightarrow> world \<Rightarrow> char list option" where
  "string_at ptr w =
     (case ptr of
        None \<Rightarrow> None
      | Some p \<Rightarrow>
          (case load p w of
             None \<Rightarrow> None
           | Some blk \<Rightarrow> if NUL \<in> set blk then Some (c_str blk) else None))"

text \<open>
  The invariant the comments of esb.c rely on (\<^verbatim>\<open>ASSERT: data->esb_allocated_size >
  data->esb_used_bytes\<close>, "the NUL byte at end has room"): a buffer is either as the
  constructor left it, or it owns a block of \<open>esb_allocated_size\<close> bytes that holds a
  terminator right after the content.
\<close>

definition valid :: "esb_s \<Rightarrow> world \<Rightarrow> bool" where
  "valid d w =
     (if esb_allocated_size d = 0 then esb_string d = None \<and> esb_used_bytes d = 0
      else case storage d w of
             None \<Rightarrow> False
           | Some blk \<Rightarrow> length blk = esb_allocated_size d \<and>
               esb_used_bytes d < esb_allocated_size d \<and> blk ! esb_used_bytes d = NUL)"

text \<open>The allocator refused a request and the process printed its message and exited.\<close>

fun out_of_memory :: "error \<Rightarrow> bool" where
  "out_of_memory (Exit_alloc n) = True"
| "out_of_memory (Exit_realloc n) = True"
| "out_of_memory Undefined = False"

text \<open>
  How an append to a valid buffer can end the process: the allocator refuses a request, or
  the buffer has no storage yet and the first size, with the terminator, wraps to 0.
\<close>

definition append_ends :: "esb_s \<Rightarrow> world \<Rightarrow> nat \<Rightarrow> error \<Rightarrow> bool" where
  "append_ends d w len e =
     (out_of_memory e \<or>
      (e = Undefined \<and> esb_allocated_size d = 0 \<and>
       (max len (alloc_size w) + 1) mod SIZE_WRAP = 0))"

text \<open>The second world differs from the first in the heap only.\<close>

definition heap_only :: "world \<Rightarrow> world \<Rightarrow> bool" where
  "heap_only w w' = (w' = w\<lparr>heap := heap w'\<rparr>)"

text \<open>
  What any call may do to a buffer and the heap: the capacity does not shrink, the storage
  pointer stays or becomes a block allocated since, and every other block that was there
  before is as it was.
\<close>

definition evolves :: "esb_s \<Rightarrow> world \<Rightarrow> esb_s \<Rightarrow> world \<Rightarrow> bool" where
  "evolves d w d' w' =
     (esb_allocated_size d \<le> esb_allocated_size d' \<and>
      length (heap w) \<le> length (heap w') \<and>
      (esb_string d' = esb_string d \<or> (\<exists>a. esb_string d' = Some a \<and> length (heap w) \<le> a)) \<and>
      (\<forall>c. c < length (heap w) \<longrightarrow> Some c \<noteq> esb_string d \<longrightarrow> load c w' = load c w))"

subsection \<open>Sequences of calls on one buffer\<close>

datatype call =
    Force_allocation nat
  | Appendn "char list" nat
  | Append "char list option"
  | Append_printf rendering
  | Get_string
  | Empty_string
  | Get_copy
  | Alloc_size nat

fun step :: "call \<Rightarrow> esb_s \<times> world \<Rightarrow> error + (esb_s \<times> world)" where
  "step (Force_allocation minlen) (d, w) = esb_force_allocation d minlen w"
| "step (Appendn s len) (d, w) = esb_appendn d s len w"
| "step (Append s) (d, w) = esb_append d s w"
| "step (Append_printf r) (d, w) = esb_append_printf d r w"
| "step Get_string (d, w) =
     (case esb_get_string d w of Inl e \<Rightarrow> Inl e | Inr (p, d', w') \<Rightarrow> Inr (d', w'))"
| "step Empty_string (d, w) = esb_empty_string d w"
| "step Get_copy (d, w) =
     (case esb_get_copy d w of Inl e \<Rightarrow> Inl e | Inr (p, d', w') \<Rightarrow> Inr (d', w'))"
| "step (Alloc_size n) (d, w) = Inr (d, esb_alloc_size n w)"

text \<open>
  The calls that keep the invariant \<open>valid\<close> (proved below): all but the formatted
  append, and \<open>esb_force_allocation\<close> with a positive size on a buffer without storage.
\<close>

fun keeps_terminator :: "call \<Rightarrow> esb_s \<Rightarrow> bool" where
  "keeps_terminator (Append_printf r) d = False"
| "keeps_terminator (Force_allocation minlen) d = (esb_allocated_size d \<noteq> 0 \<or> minlen = 0)"
| "keeps_terminator c d = True"

text \<open>A sequence of calls stops at the first one that ends the process.\<close>

fun run :: "call list \<Rightarrow> esb_s \<times> world \<Rightarrow> error + (esb_s \<times> world)" where
  "run [] s = Inr s"
| "run (c # cs) s = (case step c s of Inl e \<Rightarrow> Inl e | Inr s' \<Rightarrow> run cs s')"

text \<open>The capacity before the first call and after every call that returns.\<close>

fun capacities :: "call list \<Rightarrow> esb_s \<times> world \<Rightarrow> nat list" where
  "capacities [] s = [esb_get_allocated_size (fst s)]"
| "capacities (c # cs) s =
     esb_get_allocated_size (fst s) #
       (case step c s of Inl e \<Rightarrow> [] | Inr s' \<Rightarrow> capacities cs s')"



subsection \<open>Two processes for the examples\<close>

text \<open>
  A process that has allocated nothing yet, with \<^verbatim>\<open>alloc_size\<close> at its initial value:
  \<^verbatim>\<open>INITIAL_ALLOC\<close> is 16, and 1 when the file is compiled as its own test.
\<close>

definition fresh_world :: "nat \<Rightarrow> world" where
  "fresh_world initial_alloc =
     \<lparr>heap = [], avail = 4096, junk = (\<lambda>i. CHR ''?''), moves = True,
      alloc_size = initial_alloc, stderr = []\<rparr>"

section \<open>Properties\<close>

text \<open>The definitions of the model, for evaluating it on concrete inputs.\<close>

lemmas esb_defs = esb_append_def esb_appendn_def esb_appendn_internal_def init_esb_string_def
  esb_allocate_more_def esb_force_allocation_def esb_append_printf_def esb_append_printf_ap_def
  esb_allocate_more_if_needed_def esb_get_string_def esb_empty_string_def esb_get_copy_def
  esb_string_len_def esb_constructor_def esb_alloc_size_def esb_get_allocated_size_def

lemmas libc_defs = malloc_def realloc_def store_def load_def strncpy_def strncpy_bytes_def
  strcpy_def strlen_def c_str_def vsnprintf_def vsnprintf_result_def NUL_def
  size_t_sub_def size_t_of_int_def int_of_size_t_def SIZE_WRAP_def INT_MAX_def

subsection \<open>The heap\<close>

lemma load_append_old: "p < length (heap w) \<Longrightarrow> load p (w\<lparr>heap := heap w @ bs\<rparr>) = load p w"
  by (simp add: load_def nth_append)

lemma load_Some_less: "load p w = Some blk \<Longrightarrow> p < length (heap w)"
  by (simp add: load_def split: if_splits)

lemma load_update_same: "p < length (heap w) \<Longrightarrow> load p (w\<lparr>heap := (heap w)[p := b]\<rparr>) = b"
  by (simp add: load_def)

lemma load_update_other: "c \<noteq> p \<Longrightarrow> load c (w\<lparr>heap := (heap w)[p := b]\<rparr>) = load c w"
  by (simp add: load_def)

lemma heap_only_refl: "heap_only w w"
  by (simp add: heap_only_def)

lemma heap_only_trans: "heap_only w w1 \<Longrightarrow> heap_only w1 w2 \<Longrightarrow> heap_only w w2"
  unfolding heap_only_def
  by (metis world.surjective world.update_convs(1))


lemma store_ok:
  assumes "load p w = Some blk" and "off + length bs \<le> length blk"
  shows "\<exists>w'. store (Some p) off bs w = Inr w'"
  using assms by (simp add: store_def)

lemma store_heap_only: "store s off bs w = Inr w' \<Longrightarrow> heap_only w w'"
  by (auto simp: store_def heap_only_def split: if_splits option.splits)

subsection \<open>Initialisation and growth\<close>

text \<open>
  The size \<open>init_esb_string\<close> asks for is \<open>(max n alloc_size + 1) mod 2 ^ 64\<close>. It is
  0 when the sum wraps: the block then has no room for the terminator.
\<close>

lemma init_esb_string_unfold:
  assumes "esb_allocated_size d = 0"
  shows "init_esb_string d n w =
     (case malloc ((max n (alloc_size w) + 1) mod SIZE_WRAP) w of
        (None, w1) \<Rightarrow> Inl (Exit_alloc ((max n (alloc_size w) + 1) mod SIZE_WRAP))
      | (Some p, w1) \<Rightarrow>
          (case store (Some p) 0 [NUL] w1 of
             Inl e \<Rightarrow> Inl e
           | Inr w2 \<Rightarrow>
               Inr (\<lparr>esb_string = Some p,
                     esb_allocated_size = (max n (alloc_size w) + 1) mod SIZE_WRAP,
                     esb_used_bytes = 0\<rparr>, w2)))"
proof -
  have m: "(if n \<le> alloc_size w then (alloc_size w + 1) mod SIZE_WRAP
           else (n + 1) mod SIZE_WRAP) = (max n (alloc_size w) + 1) mod SIZE_WRAP"
    by (simp add: max_def)
  show ?thesis
    using assms unfolding init_esb_string_def Let_def m
    by (simp split: prod.splits option.splits sum.splits)
qed

lemma init_esb_string_Inr:
  assumes "esb_allocated_size d = 0" and "init_esb_string d n w = Inr (d', w')"
  shows "esb_string d' = Some (length (heap w))"
    and "esb_allocated_size d' = (max n (alloc_size w) + 1) mod SIZE_WRAP"
    and "esb_used_bytes d' = 0"
    and "heap w' = heap w @
           [Some (NUL # map (junk w) [1..<(max n (alloc_size w) + 1) mod SIZE_WRAP])]"
    and "heap_only w w'"
    and "0 < (max n (alloc_size w) + 1) mod SIZE_WRAP"
proof -
  define N where "N = (max n (alloc_size w) + 1) mod SIZE_WRAP"
  have r: "(case malloc N w of
        (None, w1) \<Rightarrow> Inl (Exit_alloc N)
      | (Some p, w1) \<Rightarrow>
          (case store (Some p) 0 [NUL] w1 of
             Inl e \<Rightarrow> Inl e
           | Inr w2 \<Rightarrow>
               Inr (\<lparr>esb_string = Some p, esb_allocated_size = N, esb_used_bytes = 0\<rparr>, w2)))
       = Inr (d', w')"
    unfolding N_def init_esb_string_unfold [OF assms(1), symmetric] by (rule assms(2))
  have pos: "0 < N"
  proof (rule ccontr)
    assume "\<not> 0 < N"
    then have "N = 0" by simp
    then show False
      using r by (simp add: malloc_def store_def load_def split: if_splits)
  qed
  then have u: "[0..<N] = 0 # [1..<N]"
    by (simp add: upt_conv_Cons)
  have "d' = \<lparr>esb_string = Some (length (heap w)), esb_allocated_size = N, esb_used_bytes = 0\<rparr>
        \<and> w' = w\<lparr>heap := heap w @ [Some (NUL # map (junk w) [1..<N])]\<rparr>"
    using r pos
    by (auto simp: malloc_def store_def load_def u simp del: upt_Suc upt_rec_numeral
        split: if_splits)
  then show "esb_string d' = Some (length (heap w))"
    and "esb_allocated_size d' = (max n (alloc_size w) + 1) mod SIZE_WRAP"
    and "esb_used_bytes d' = 0"
    and "heap w' = heap w @
           [Some (NUL # map (junk w) [1..<(max n (alloc_size w) + 1) mod SIZE_WRAP])]"
    and "heap_only w w'"
    and "0 < (max n (alloc_size w) + 1) mod SIZE_WRAP"
    using pos by (simp_all add: N_def heap_only_def)
qed

lemma init_esb_string_Inl:
  assumes "init_esb_string d n w = Inl e"
  shows "e = Exit_alloc ((max n (alloc_size w) + 1) mod SIZE_WRAP) \<or>
         (e = Undefined \<and> (max n (alloc_size w) + 1) mod SIZE_WRAP = 0)"
proof -
  have z: "esb_allocated_size d = 0"
    using assms by (simp add: init_esb_string_def split: if_splits)
  define N where "N = (max n (alloc_size w) + 1) mod SIZE_WRAP"
  have "(case malloc N w of
        (None, w1) \<Rightarrow> Inl (Exit_alloc N)
      | (Some p, w1) \<Rightarrow>
          (case store (Some p) 0 [NUL] w1 of
             Inl e \<Rightarrow> Inl e
           | Inr w2 \<Rightarrow>
               Inr (\<lparr>esb_string = Some p, esb_allocated_size = N, esb_used_bytes = 0\<rparr>, w2)))
       = Inl e"
    unfolding N_def init_esb_string_unfold [OF z, symmetric] by (rule assms)
  then have "e = Exit_alloc N \<or> (e = Undefined \<and> N = 0)"
    by (auto simp: malloc_def store_def load_def split: if_splits)
  then show ?thesis
    by (simp add: N_def)
qed

text \<open>Below \<^verbatim>\<open>SIZE_MAX\<close> the sum does not wrap.\<close>

lemma init_size_exact:
  "max n (alloc_size w) < SIZE_MAX \<Longrightarrow>
     (max n (alloc_size w) + 1) mod SIZE_WRAP = max n (alloc_size w) + 1"
  by (simp add: SIZE_MAX_def SIZE_WRAP_def)

lemma init_esb_string_fails:
  assumes "esb_allocated_size d = 0" and "max n (alloc_size w) < SIZE_MAX"
    and "\<not> max n (alloc_size w) + 1 \<le> avail w"
  shows "init_esb_string d n w = Inl (Exit_alloc (max n (alloc_size w) + 1))"
proof -
  have e: "(max n (alloc_size w) + 1) mod SIZE_WRAP = max n (alloc_size w) + 1"
    by (rule init_size_exact [OF assms(2)])
  show ?thesis
    unfolding init_esb_string_unfold [OF assms(1)] e
    using assms(3) by (simp add: malloc_def)
qed

lemma init_esb_string_returns:
  assumes "esb_allocated_size d = 0" and "max n (alloc_size w) < SIZE_MAX"
    and "max n (alloc_size w) + 1 \<le> avail w"
  shows "\<exists>d' w'. init_esb_string d n w = Inr (d', w')"
proof -
  have e: "(max n (alloc_size w) + 1) mod SIZE_WRAP = max n (alloc_size w) + 1"
    by (rule init_size_exact [OF assms(2)])
  show ?thesis
    unfolding init_esb_string_unfold [OF assms(1)] e
    using assms(3) by (simp add: malloc_def store_def load_def)
qed

subsection \<open>What a call may change\<close>

text \<open>
  Every function of the interface satisfies \<open>evolves\<close>; the relation is reflexive and
  transitive, so sequences of calls satisfy it too.
\<close>

lemma evolves_refl: "evolves d w d w"
  by (simp add: evolves_def)

lemma evolves_trans:
  assumes "evolves d w d1 w1" and "evolves d1 w1 d2 w2"
  shows "evolves d w d2 w2"
  unfolding evolves_def
proof (intro conjI allI impI)
  show "esb_allocated_size d \<le> esb_allocated_size d2"
    using assms by (auto simp: evolves_def)
  show "length (heap w) \<le> length (heap w2)"
    using assms by (auto simp: evolves_def)
  show "esb_string d2 = esb_string d \<or> (\<exists>a. esb_string d2 = Some a \<and> length (heap w) \<le> a)"
    using assms unfolding evolves_def by (metis le_trans)
next
  fix c assume c: "c < length (heap w)" "Some c \<noteq> esb_string d"
  have "Some c \<noteq> esb_string d1"
    using assms(1) c unfolding evolves_def by (metis not_le option.inject)
  moreover have "c < length (heap w1)"
    using assms(1) c unfolding evolves_def by linarith
  ultimately have "load c w2 = load c w1"
    using assms(2) unfolding evolves_def by blast
  moreover have "load c w1 = load c w"
    using assms(1) c unfolding evolves_def by blast
  ultimately show "load c w2 = load c w" by simp
qed

lemma evolves_used: "evolves d w d' w' \<Longrightarrow> evolves d w (d'\<lparr>esb_used_bytes := n\<rparr>) w'"
  by (simp add: evolves_def)

lemma store_evolves: "store (esb_string d) off bs w = Inr w' \<Longrightarrow> evolves d w d w'"
  by (auto simp: store_def evolves_def load_update_other split: if_splits option.splits)

lemma strncpy_evolves: "strncpy (esb_string d) off src n w = Inr w' \<Longrightarrow> evolves d w d w'"
  by (auto simp: strncpy_def split: option.splits dest: store_evolves)

lemma vsnprintf_evolves: "vsnprintf (esb_string d) off n r w = Inr (k, w') \<Longrightarrow> evolves d w d w'"
  by (auto simp: vsnprintf_def split: sum.splits dest: store_evolves)

lemma init_esb_string_evolves: "init_esb_string d n w = Inr (d', w') \<Longrightarrow> evolves d w d' w'"
  by (auto simp: init_esb_string_def malloc_def store_def load_def evolves_def Let_def nth_append
      split: if_splits prod.splits option.splits sum.splits)

lemma esb_allocate_more_evolves: "esb_allocate_more d len w = Inr (d', w') \<Longrightarrow> evolves d w d' w'"
  by (auto simp: esb_allocate_more_def realloc_def malloc_def load_def evolves_def Let_def nth_append
      split: if_splits prod.splits option.splits sum.splits)

lemma esb_force_allocation_evolves:
  "esb_force_allocation d minlen w = Inr (d', w') \<Longrightarrow> evolves d w d' w'"
  by (auto simp: esb_force_allocation_def Let_def evolves_refl
      split: if_splits dest: esb_allocate_more_evolves)


lemma esb_allocate_more_Inr:
  assumes "esb_allocate_more d len w = Inr (d', w')"
  shows "esb_allocated_size d' = max (esb_allocated_size d + len) (alloc_size w)"
    and "esb_used_bytes d' = esb_used_bytes d"
    and "heap_only w w'"
    and "storage d w = Some old \<Longrightarrow>
           storage d' w' = Some (take (esb_allocated_size d') old
                                  @ map (junk w) [length old..<esb_allocated_size d'])"
    and "esb_string d = None \<Longrightarrow>
           storage d' w' = Some (map (junk w) [0..<esb_allocated_size d'])"
  using assms
  by (auto simp: esb_allocate_more_def realloc_def malloc_def storage_def load_def heap_only_def
        Let_def max_def nth_append
      split: if_splits prod.splits option.splits sum.splits)

lemma esb_allocate_more_Inl:
  assumes "esb_allocate_more d len w = Inl e"
  shows "e = Exit_realloc (max (esb_allocated_size d + len) (alloc_size w)) \<or>
         (e = Undefined \<and> esb_string d \<noteq> None \<and> storage d w = None)"
  using assms
  by (auto simp: esb_allocate_more_def realloc_def malloc_def storage_def Let_def max_def
      split: if_splits prod.splits option.splits sum.splits)

subsection \<open>The stages of \<open>esb_appendn_internal\<close>\<close>

lemma esb_appendn_internal_stages:
  assumes "esb_appendn_internal d s len w = Inr (d', w')"
  obtains d1 w1 d2 w2 w3 where
    "if esb_allocated_size d = 0
     then init_esb_string d (max len (alloc_size w)) w = Inr (d1, w1)
     else d1 = d \<and> w1 = w"
    and "if size_t_sub (esb_allocated_size d1) (esb_used_bytes d1) \<le> len
     then esb_allocate_more d1 len w1 = Inr (d2, w2)
     else d2 = d1 \<and> w2 = w1"
    and "strncpy (esb_string d2) (esb_used_bytes d2) s len w2 = Inr w3"
    and "store (esb_string d2) (esb_used_bytes d2 + len) [NUL] w3 = Inr w'"
    and "d' = d2\<lparr>esb_used_bytes := esb_used_bytes d2 + len\<rparr>"
proof -
  have m: "(if alloc_size w \<le> len then len else alloc_size w) = max len (alloc_size w)"
    by (simp add: max_def)
  show thesis
    using assms that unfolding esb_appendn_internal_def Let_def m
    by (auto split: sum.splits if_splits prod.splits)
qed

lemma esb_appendn_internal_evolves:
  assumes "esb_appendn_internal d s len w = Inr (d', w')"
  shows "evolves d w d' w'"
proof -
  from assms obtain d1 w1 d2 w2 w3 where
    1: "if esb_allocated_size d = 0
        then init_esb_string d (max len (alloc_size w)) w = Inr (d1, w1)
        else d1 = d \<and> w1 = w"
    and 2: "if size_t_sub (esb_allocated_size d1) (esb_used_bytes d1) \<le> len
        then esb_allocate_more d1 len w1 = Inr (d2, w2)
        else d2 = d1 \<and> w2 = w1"
    and 3: "strncpy (esb_string d2) (esb_used_bytes d2) s len w2 = Inr w3"
    and 4: "store (esb_string d2) (esb_used_bytes d2 + len) [NUL] w3 = Inr w'"
    and d': "d' = d2\<lparr>esb_used_bytes := esb_used_bytes d2 + len\<rparr>"
    by (rule esb_appendn_internal_stages)
  have "evolves d w d1 w1"
    using 1 by (auto split: if_splits intro: evolves_refl init_esb_string_evolves)
  moreover have "evolves d1 w1 d2 w2"
    using 2 by (auto split: if_splits intro: evolves_refl esb_allocate_more_evolves)
  moreover have "evolves d2 w2 d2 w3"
    using 3 by (rule strncpy_evolves)
  moreover have "evolves d2 w3 d2 w'"
    using 4 by (rule store_evolves)
  ultimately have "evolves d w d2 w'"
    by (blast intro: evolves_trans)
  then show ?thesis
    unfolding d' by (rule evolves_used)
qed


subsection \<open>Appending to a valid buffer\<close>

lemma c_str_length_le: "length (c_str s) \<le> length s"
  by (simp add: c_str_def length_takeWhile_le)

lemma strncpy_bytes_prefix:
  "len \<le> length (c_str s) \<Longrightarrow> strncpy_bytes s len = Some (take len s)"
  by (simp add: strncpy_bytes_def Let_def)

lemma store_live:
  assumes "load p w = Some blk" and "off + length bs \<le> length blk"
  shows "\<exists>w'. store (Some p) off bs w = Inr w' \<and>
           load p w' = Some (take off blk @ bs @ drop (off + length bs) blk) \<and> heap_only w w'"
proof (cases "bs = []")
  case True
  then show ?thesis using assms by (simp add: store_def heap_only_refl)
next
  case False
  then show ?thesis
    using assms load_Some_less [OF assms(1)]
    by (simp add: store_def load_update_same heap_only_def)
qed

lemma append_tail:
  assumes "storage d w = Some blk"
    and "esb_used_bytes d + len < length blk"
    and "len \<le> length (c_str s)"
  shows "\<exists>w3 w4 blk'.
           strncpy (esb_string d) (esb_used_bytes d) s len w = Inr w3 \<and>
           store (esb_string d) (esb_used_bytes d + len) [NUL] w3 = Inr w4 \<and>
           storage d w4 = Some blk' \<and> length blk' = length blk \<and>
           blk' ! (esb_used_bytes d + len) = NUL \<and>
           take (esb_used_bytes d + len) blk' = take (esb_used_bytes d) blk @ take len s \<and>
           heap_only w w4"
proof -
  let ?u = "esb_used_bytes d"
  obtain p where p: "esb_string d = Some p" and lp: "load p w = Some blk"
    using assms(1) by (auto simp: storage_def split: option.splits)
  have ls: "length (take len s) = len"
    using assms(3) c_str_length_le [of s] by simp
  define b3 where "b3 = take ?u blk @ take len s @ drop (?u + len) blk"
  have lb3: "length b3 = length blk"
    using assms(2) ls by (simp add: b3_def)
  obtain w3 where w3: "store (Some p) ?u (take len s) w = Inr w3"
    and l3: "load p w3 = Some b3" and h3: "heap_only w w3"
    using store_live [OF lp, of ?u "take len s"] assms(2) ls by (auto simp: b3_def)
  define b4 where "b4 = take (?u + len) b3 @ [NUL] @ drop (?u + len + 1) b3"
  obtain w4 where w4: "store (Some p) (?u + len) [NUL] w3 = Inr w4"
    and l4: "load p w4 = Some b4" and h4: "heap_only w3 w4"
    using store_live [OF l3, of "?u + len" "[NUL]"] assms(2) lb3 by (auto simp: b4_def)
  have "strncpy (esb_string d) ?u s len w = Inr w3"
    using w3 by (simp add: strncpy_def strncpy_bytes_prefix [OF assms(3)] p)
  moreover have "store (esb_string d) (?u + len) [NUL] w3 = Inr w4"
    using w4 by (simp add: p)
  moreover have "storage d w4 = Some b4"
    using l4 by (simp add: storage_def p)
  moreover have "length b4 = length blk"
    using assms(2) lb3 by (simp add: b4_def)
  moreover have "b4 ! (?u + len) = NUL"
    using assms(2) lb3 by (simp add: b4_def nth_append)
  moreover have "take (?u + len) b4 = take ?u blk @ take len s"
    using assms(2) lb3 ls by (simp add: b4_def b3_def)
  moreover have "heap_only w w4"
    using h3 h4 by (rule heap_only_trans)
  ultimately show ?thesis by blast
qed


lemma esb_appendn_internal_unfold:
  "esb_appendn_internal d s len w =
     (case (if esb_allocated_size d = 0
            then init_esb_string d (max len (alloc_size w)) w else Inr (d, w)) of
        Inl e \<Rightarrow> Inl e
      | Inr (d1, w1) \<Rightarrow>
          (case (if size_t_sub (esb_allocated_size d1) (esb_used_bytes d1) \<le> len
                 then esb_allocate_more d1 len w1 else Inr (d1, w1)) of
             Inl e \<Rightarrow> Inl e
           | Inr (d2, w2) \<Rightarrow>
               (case strncpy (esb_string d2) (esb_used_bytes d2) s len w2 of
                  Inl e \<Rightarrow> Inl e
                | Inr w3 \<Rightarrow>
                    (case store (esb_string d2) (esb_used_bytes d2 + len) [NUL] w3 of
                       Inl e \<Rightarrow> Inl e
                     | Inr w4 \<Rightarrow> Inr (d2\<lparr>esb_used_bytes := esb_used_bytes d2 + len\<rparr>, w4)))))"
proof -
  have m: "(if alloc_size w \<le> len then len else alloc_size w) = max len (alloc_size w)"
    by (simp add: max_def)
  show ?thesis
    unfolding esb_appendn_internal_def Let_def m
    by (simp split: sum.splits prod.splits)
qed

text \<open>A buffer with room: a live block of the recorded size and the content inside it.\<close>

lemma valid_init:
  assumes "valid d w" and "esb_allocated_size d = 0" and "init_esb_string d n w = Inr (d1, w1)"
  shows "valid d1 w1" and "esb_used_bytes d1 = esb_used_bytes d" and "content d1 w1 = content d w"
    and "0 < esb_allocated_size d1"
proof -
  note f = init_esb_string_Inr [OF assms(2,3)]
  define N where "N = (max n (alloc_size w) + 1) mod SIZE_WRAP"
  have pos: "0 < N"
    using f(6) by (simp add: N_def)
  have st: "storage d1 w1 = Some (NUL # map (junk w) [1..<N])"
    by (simp add: storage_def load_def f(1) f(4) N_def del: upt_Suc)
  have c: "esb_allocated_size d1 = N"
    by (simp add: f(2) N_def)
  show "valid d1 w1"
    using pos by (simp add: valid_def st c f(3) del: upt_Suc)
  show "esb_used_bytes d1 = esb_used_bytes d"
    using assms(1,2) by (simp add: valid_def f(3))
  have "content d w = []"
    using assms(1,2) by (simp add: valid_def content_def storage_def)
  moreover have "content d1 w1 = []"
    by (simp add: content_def st f(3) del: upt_Suc)
  ultimately show "content d1 w1 = content d w" by simp
  show "0 < esb_allocated_size d1"
    using pos by (simp add: c)
qed

lemma valid_storage:
  assumes "valid d w" and "0 < esb_allocated_size d"
  obtains blk where "storage d w = Some blk" and "length blk = esb_allocated_size d"
    and "esb_used_bytes d < esb_allocated_size d" and "blk ! esb_used_bytes d = NUL"
  using assms by (auto simp: valid_def split: option.splits)

lemma room_after_growth:
  assumes "valid d1 w1" and "0 < esb_allocated_size d1"
    and "(if size_t_sub (esb_allocated_size d1) (esb_used_bytes d1) \<le> len
          then esb_allocate_more d1 len w1 else Inr (d1, w1)) = Inr (d2, w2)"
  shows "\<exists>blk2. storage d2 w2 = Some blk2 \<and> length blk2 = esb_allocated_size d2 \<and>
           esb_used_bytes d2 = esb_used_bytes d1 \<and>
           esb_used_bytes d2 + len < length blk2 \<and>
           take (esb_used_bytes d1) blk2 = content d1 w1 \<and> heap_only w1 w2"
proof -
  obtain blk where st: "storage d1 w1 = Some blk" and lb: "length blk = esb_allocated_size d1"
    and u: "esb_used_bytes d1 < esb_allocated_size d1"
    using assms(1,2) by (rule valid_storage)
  have sub: "size_t_sub (esb_allocated_size d1) (esb_used_bytes d1) =
             esb_allocated_size d1 - esb_used_bytes d1"
    using u by (simp add: size_t_sub_def)
  show ?thesis
  proof (cases "esb_allocated_size d1 - esb_used_bytes d1 \<le> len")
    case True
    then have r: "esb_allocate_more d1 len w1 = Inr (d2, w2)"
      using assms(3) sub by simp
    note f = esb_allocate_more_Inr [OF r]
    have a2: "esb_allocated_size d1 + len \<le> esb_allocated_size d2"
      by (simp add: f(1))
    have "storage d2 w2 = Some (blk @ map (junk w1) [length blk..<esb_allocated_size d2])"
      using f(4) [OF st] a2 lb by simp
    moreover have "length (blk @ map (junk w1) [length blk..<esb_allocated_size d2])
                     = esb_allocated_size d2"
      using a2 lb by simp
    moreover have "take (esb_used_bytes d1)
                     (blk @ map (junk w1) [length blk..<esb_allocated_size d2]) = content d1 w1"
      using u lb by (simp add: content_def st)
    ultimately show ?thesis
      using f(2) f(3) a2 u by (auto simp del: upt_Suc)
  next
    case False
    then have "d2 = d1" and "w2 = w1"
      using assms(3) sub by simp_all
    then show ?thesis
      using st lb False by (simp add: content_def heap_only_refl)
  qed
qed

lemma room_or_exit:
  assumes "valid d1 w1" and "0 < esb_allocated_size d1"
    and "(if size_t_sub (esb_allocated_size d1) (esb_used_bytes d1) \<le> len
          then esb_allocate_more d1 len w1 else Inr (d1, w1)) = Inl e"
  shows "\<exists>n. e = Exit_realloc n"
proof -
  obtain blk where st: "storage d1 w1 = Some blk"
    using assms(1,2) by (rule valid_storage)
  have "esb_allocate_more d1 len w1 = Inl e"
    using assms(3) by (simp split: if_splits)
  then show ?thesis
    using esb_allocate_more_Inl [of d1 len w1 e] st by auto
qed


lemma esb_appendn_internal_valid:
  assumes v: "valid d w" and len: "len \<le> length (c_str s)"
  shows "case esb_appendn_internal d s len w of
           Inl e \<Rightarrow> append_ends d w len e
         | Inr (d', w') \<Rightarrow>
             valid d' w' \<and> esb_used_bytes d' = esb_used_bytes d + len \<and>
             content d' w' = content d w @ take len s \<and> heap_only w w'"
proof -
  let ?r1 = "if esb_allocated_size d = 0
             then init_esb_string d (max len (alloc_size w)) w else Inr (d, w)"
  show ?thesis
  proof (cases ?r1)
    case (Inl e)
    then have z: "esb_allocated_size d = 0"
      and i: "init_esb_string d (max len (alloc_size w)) w = Inl e"
      by (simp_all split: if_splits)
    have "append_ends d w len e"
      using init_esb_string_Inl [OF i] z by (auto simp: append_ends_def)
    then show ?thesis
      using Inl by (simp add: esb_appendn_internal_unfold)
  next
    case (Inr s1)
    obtain d1 w1 where s1: "s1 = (d1, w1)" by (cases s1)
    have v1: "valid d1 w1" and u1: "esb_used_bytes d1 = esb_used_bytes d"
      and c1: "content d1 w1 = content d w" and a1: "0 < esb_allocated_size d1"
      and h1: "heap_only w w1"
      using Inr s1 v
      by (auto split: if_splits simp: heap_only_refl
          dest: valid_init [OF v] init_esb_string_Inr(5))
    let ?r2 = "if size_t_sub (esb_allocated_size d1) (esb_used_bytes d1) \<le> len
               then esb_allocate_more d1 len w1 else Inr (d1, w1)"
    show ?thesis
    proof (cases ?r2)
      case (Inl e)
      then have "\<exists>n. e = Exit_realloc n"
        by (rule room_or_exit [OF v1 a1])
      then show ?thesis
        using Inl Inr s1 by (auto simp: esb_appendn_internal_unfold append_ends_def)
    next
      case r2: (Inr s2)
      obtain d2 w2 where s2: "s2 = (d2, w2)" by (cases s2)
      obtain blk2 where st2: "storage d2 w2 = Some blk2"
        and l2: "length blk2 = esb_allocated_size d2"
        and u2: "esb_used_bytes d2 = esb_used_bytes d1"
        and room: "esb_used_bytes d2 + len < length blk2"
        and c2: "take (esb_used_bytes d1) blk2 = content d1 w1"
        and h2: "heap_only w1 w2"
        using room_after_growth [OF v1 a1, of len d2 w2] r2 s2 by auto
      obtain w3 w4 blk' where
        t1: "strncpy (esb_string d2) (esb_used_bytes d2) s len w2 = Inr w3"
        and t2: "store (esb_string d2) (esb_used_bytes d2 + len) [NUL] w3 = Inr w4"
        and st4: "storage d2 w4 = Some blk'" and l4: "length blk' = length blk2"
        and n4: "blk' ! (esb_used_bytes d2 + len) = NUL"
        and c4: "take (esb_used_bytes d2 + len) blk' = take (esb_used_bytes d2) blk2 @ take len s"
        and h4: "heap_only w2 w4"
        using append_tail [OF st2 room len] by blast
      let ?d' = "d2\<lparr>esb_used_bytes := esb_used_bytes d2 + len\<rparr>"
      have res: "esb_appendn_internal d s len w = Inr (?d', w4)"
        using Inr s1 r2 s2 t1 t2 by (simp add: esb_appendn_internal_unfold)
      have st': "storage ?d' w4 = Some blk'"
        using st4 by (simp add: storage_def)
      have "valid ?d' w4"
        using st' l4 l2 n4 room by (simp add: valid_def)
      moreover have "esb_used_bytes ?d' = esb_used_bytes d + len"
        using u1 u2 by simp
      moreover have "content ?d' w4 = content d w @ take len s"
        using st' c4 c2 c1 u2 by (simp add: content_def)
      moreover have "heap_only w w4"
        using h1 h2 h4 by (blast intro: heap_only_trans)
      ultimately show ?thesis
        by (simp add: res)
    qed
  qed
qed


subsection \<open>The remaining calls and call sequences\<close>

lemma load_stderr: "load c (w\<lparr>stderr := x\<rparr>) = load c w"
  by (simp add: load_def)

lemma evolves_stderr: "evolves d (w\<lparr>stderr := x\<rparr>) d' w' \<Longrightarrow> evolves d w d' w'"
  by (simp add: evolves_def load_stderr)

lemma esb_appendn_evolves: "esb_appendn d s len w = Inr (d', w') \<Longrightarrow> evolves d w d' w'"
  by (auto simp: esb_appendn_def split: option.splits if_splits
      dest: esb_appendn_internal_evolves evolves_stderr)

lemma esb_append_evolves: "esb_append d s w = Inr (d', w') \<Longrightarrow> evolves d w d' w'"
  by (auto simp: esb_append_def evolves_refl split: option.splits if_splits
      dest: esb_appendn_internal_evolves)

lemma esb_get_string_evolves: "esb_get_string d w = Inr (p, d', w') \<Longrightarrow> evolves d w d' w'"
  by (auto simp: esb_get_string_def evolves_refl split: sum.splits if_splits
      dest: init_esb_string_evolves)

lemma esb_empty_string_evolves:
  assumes "esb_empty_string d w = Inr (d', w')"
  shows "evolves d w d' w'"
proof -
  obtain d1 w1 where 1: "(if esb_allocated_size d = 0 then init_esb_string d (alloc_size w) w
            else Inr (d, w)) = Inr (d1, w1)"
    and 2: "store (esb_string d1) 0 [NUL] w1 = Inr w'"
    and d': "d' = d1\<lparr>esb_used_bytes := 0\<rparr>"
    using assms by (auto simp: esb_empty_string_def Let_def split: sum.splits)
  have "evolves d w d1 w1"
    using 1 by (auto split: if_splits intro: evolves_refl init_esb_string_evolves)
  moreover have "evolves d1 w1 d1 w'"
    using 2 by (rule store_evolves)
  ultimately have "evolves d w d1 w'"
    by (rule evolves_trans)
  then show ?thesis
    unfolding d' by (rule evolves_used)
qed

lemma esb_allocate_more_if_needed_evolves:
  "esb_allocate_more_if_needed d r w = Inr (d', w') \<Longrightarrow> evolves d w d' w'"
  by (auto simp: esb_allocate_more_if_needed_def Let_def split: if_splits
      dest: esb_force_allocation_evolves)

lemma esb_append_printf_ap_evolves:
  assumes "esb_append_printf_ap d r w = Inr (d', w')"
  shows "evolves d w d' w'"
proof -
  have "\<exists>d1 w1 k. esb_allocate_more_if_needed d r w = Inr (d1, w1) \<and>
          vsnprintf (esb_string d1) (esb_used_bytes d1)
              (size_t_of_int (int_of_size_t (size_t_sub (esb_allocated_size d1) (esb_used_bytes d1))))
              r w1 = Inr (k, w') \<and>
          (\<exists>n. d' = d1 \<or> d' = d1\<lparr>esb_used_bytes := n\<rparr>)"
    using assms
    by (simp add: esb_append_printf_ap_def Let_def split: sum.splits if_splits prod.splits) blast+
  then obtain d1 w1 k where 1: "esb_allocate_more_if_needed d r w = Inr (d1, w1)"
    and 2: "vsnprintf (esb_string d1) (esb_used_bytes d1)
              (size_t_of_int (int_of_size_t (size_t_sub (esb_allocated_size d1) (esb_used_bytes d1))))
              r w1 = Inr (k, w')"
    and d': "\<exists>n. d' = d1 \<or> d' = d1\<lparr>esb_used_bytes := n\<rparr>"
    by blast
  have "evolves d w d1 w1"
    using 1 by (rule esb_allocate_more_if_needed_evolves)
  moreover have "evolves d1 w1 d1 w'"
    using 2 by (rule vsnprintf_evolves)
  ultimately have "evolves d w d1 w'"
    by (rule evolves_trans)
  then show ?thesis
    using d' by (auto intro: evolves_used)
qed

lemma malloc_evolves:
  assumes "malloc n w = (p, w1)"
  shows "evolves d w d w1" and "p = None \<or> p = Some (length (heap w))"
  using assms by (auto simp: malloc_def evolves_def load_def nth_append split: if_splits)

lemma strcpy_frame:
  assumes "strcpy (Some a) src w = Inr w'"
  shows "length (heap w') = length (heap w)" and "c \<noteq> a \<Longrightarrow> load c w' = load c w"
  using assms
  by (auto simp: strcpy_def store_def load_update_other split: option.splits if_splits)

lemma strcpy_null: "strcpy None src w \<noteq> Inr w'"
  by (auto simp: strcpy_def store_def split: option.splits)

lemma esb_get_copy_evolves:
  assumes "esb_get_copy d w = Inr (p, d', w')"
  shows "evolves d w d' w'"
proof (cases "esb_string_len d = 0")
  case True
  then show ?thesis
    using assms by (simp add: esb_get_copy_def evolves_refl)
next
  case False
  obtain copy w1 where m: "malloc (esb_string_len d + 1) w = (copy, w1)"
    by (cases "malloc (esb_string_len d + 1) w")
  obtain src w2 where g: "esb_get_string d w1 = Inr (src, d', w2)"
    and c: "strcpy copy src w2 = Inr w'"
    using assms False m by (auto simp: esb_get_copy_def Let_def split: sum.splits)
  obtain a where a: "copy = Some a" "a = length (heap w)"
    using c malloc_evolves(2) [OF m] strcpy_null by (cases copy) auto
  have e1: "evolves d w d w1"
    using m by (rule malloc_evolves)
  have lw1: "length (heap w1) = length (heap w) + 1"
    using m a by (auto simp: malloc_def split: if_splits)
  have e2: "evolves d w1 d' w2"
    using g by (rule esb_get_string_evolves)
  have e12: "evolves d w d' w2"
    using e1 e2 by (rule evolves_trans)
  have f: "length (heap w') = length (heap w2)" "\<And>c. c \<noteq> a \<Longrightarrow> load c w' = load c w2"
    using strcpy_frame [of a src w2 w'] c a by auto
  show ?thesis
    using e12 f a unfolding evolves_def by auto
qed

lemma step_evolves: "step c (d, w) = Inr (d', w') \<Longrightarrow> evolves d w d' w'"
proof (cases c)
  case (Alloc_size n)
  assume "step c (d, w) = Inr (d', w')"
  then show ?thesis
    using Alloc_size by (auto simp: evolves_def esb_alloc_size_def load_def)
qed (auto simp: esb_append_printf_def split: sum.splits
      dest: esb_force_allocation_evolves esb_appendn_evolves esb_append_evolves
        esb_append_printf_ap_evolves esb_get_string_evolves esb_empty_string_evolves
        esb_get_copy_evolves)

lemma run_evolves: "run cs (d, w) = Inr (d', w') \<Longrightarrow> evolves d w d' w'"
proof (induction cs arbitrary: d w)
  case Nil
  then show ?case by (simp add: evolves_refl)
next
  case (Cons c cs)
  then obtain d1 w1 where 1: "step c (d, w) = Inr (d1, w1)" and 2: "run cs (d1, w1) = Inr (d', w')"
    by (auto split: sum.splits)
  show ?case
    using step_evolves [OF 1] Cons.IH [OF 2] by (rule evolves_trans)
qed

subsection \<open>\<open>esb_appendn\<close> and \<open>esb_append\<close> on a valid buffer\<close>

lemma storage_stderr: "storage d (w\<lparr>stderr := x\<rparr>) = storage d w"
  by (simp add: storage_def load_stderr split: option.splits)

lemma valid_stderr: "valid d (w\<lparr>stderr := x\<rparr>) = valid d w"
  by (simp add: valid_def storage_stderr)

lemma content_stderr: "content d (w\<lparr>stderr := x\<rparr>) = content d w"
  by (simp add: content_def storage_stderr)

lemma strlen_Some: "strlen s = Some t \<Longrightarrow> NUL \<in> set s \<and> t = length (c_str s)"
  by (simp add: strlen_def split: if_splits)

lemma take_c_str:
  assumes "n \<le> length (c_str s)"
  shows "take n (c_str s) = take n s"
proof -
  define m where "m = length (c_str s)"
  have "c_str s = take m s"
    unfolding m_def c_str_def by (rule takeWhile_eq_take)
  moreover have "n \<le> m"
    using assms by (simp add: m_def)
  ultimately show ?thesis
    by (simp add: min_def)
qed

lemma append_ends_stderr: "append_ends d (w\<lparr>stderr := x\<rparr>) len e = append_ends d w len e"
  by (simp add: append_ends_def)



lemma esb_appendn_valid:
  assumes v: "valid d w" and t: "strlen s = Some t"
  shows "case esb_appendn d s len w of
           Inl e \<Rightarrow> append_ends d w (min t len) e
         | Inr (d', w') \<Rightarrow>
             valid d' w' \<and> esb_used_bytes d' = esb_used_bytes d + min t len \<and>
             content d' w' = content d w @ take (min t len) (c_str s) \<and>
             heap_only (w\<lparr>stderr := stderr w @
                          (if t < len then [Bad_string_length t len] else [])\<rparr>) w'"
proof (cases "t < len")
  case True
  let ?w = "w\<lparr>stderr := stderr w @ [Bad_string_length t len]\<rparr>"
  have e: "esb_appendn d s len w = esb_appendn_internal d s t ?w"
    using t True by (simp add: esb_appendn_def)
  have "valid d ?w"
    using v by (simp add: valid_stderr)
  moreover have "t \<le> length (c_str s)"
    using strlen_Some [OF t] by simp
  ultimately show ?thesis
    using esb_appendn_internal_valid [of d ?w t s] True
    by (auto simp: e content_stderr take_c_str min_def append_ends_stderr split: sum.splits)
next
  case False
  have e: "esb_appendn d s len w = esb_appendn_internal d s len w"
    using t False by (simp add: esb_appendn_def)
  have "len \<le> length (c_str s)"
    using strlen_Some [OF t] False by simp
  then show ?thesis
    using esb_appendn_internal_valid [OF v, of len s] False
    by (auto simp: e take_c_str min_def split: sum.splits)
qed

lemma c_str_no_NUL: "NUL \<notin> set (c_str s)"
  unfolding c_str_def by (auto dest: set_takeWhileD)






subsection \<open>Sequences of appends\<close>


lemma esb_append_valid:
  assumes v: "valid d w" and n: "NUL \<in> set s"
  shows "case esb_append d (Some s) w of
           Inl e \<Rightarrow> append_ends d w (length (c_str s)) e
         | Inr (d', w') \<Rightarrow>
             valid d' w' \<and> esb_used_bytes d' = esb_used_bytes d + length (c_str s) \<and>
             content d' w' = content d w @ c_str s \<and> heap_only w w'"
proof (cases "length (c_str s) = 0")
  case True
  then show ?thesis
    using v n by (simp add: esb_append_def strlen_def heap_only_refl)
next
  case False
  have e: "esb_append d (Some s) w = esb_appendn_internal d s (length (c_str s)) w"
    using n False by (simp add: esb_append_def strlen_def)
  have "take (length (c_str s)) s = c_str s"
    unfolding c_str_def by (rule takeWhile_eq_take [symmetric])
  then show ?thesis
    using esb_appendn_internal_valid [OF v, of "length (c_str s)" s]
    by (auto simp: e split: sum.splits)
qed






subsection \<open>Forcing the capacity\<close>

lemma esb_allocate_more_sized:
  assumes "esb_allocate_more d len w = Inr (d', w')"
  shows "\<exists>blk. storage d' w' = Some blk \<and> length blk = esb_allocated_size d'"
proof (cases "esb_string d")
  case None
  then show ?thesis
    using esb_allocate_more_Inr(5) [OF assms] by simp
next
  case (Some p)
  then obtain old where "storage d w = Some old"
    using assms
    by (auto simp: esb_allocate_more_def realloc_def storage_def Let_def split: option.splits)
  then show ?thesis
    using esb_allocate_more_Inr(4) [OF assms] by auto
qed

lemma esb_allocate_more_returns:
  assumes "esb_string d = None \<or> storage d w \<noteq> None"
    and "max (esb_allocated_size d + len) (alloc_size w) \<le> avail w"
  shows "\<exists>d' w'. esb_allocate_more d len w = Inr (d', w')"
  using assms
  by (auto simp: esb_allocate_more_def realloc_def malloc_def storage_def Let_def max_def
      split: option.splits if_splits)

lemma esb_allocate_more_content:
  assumes "valid d w" and "esb_allocate_more d len w = Inr (d', w')"
  shows "content d' w' = content d w"
proof (cases "esb_allocated_size d = 0")
  case True
  then have n: "esb_string d = None" and u: "esb_used_bytes d = 0"
    using assms(1) by (simp_all add: valid_def)
  have "content d w = []"
    using n by (simp add: content_def storage_def)
  moreover have "content d' w' = []"
    using esb_allocate_more_Inr(2) [OF assms(2)] u by (simp add: content_def split: option.splits)
  ultimately show ?thesis by simp
next
  case False
  then obtain old where st: "storage d w = Some old" and l: "length old = esb_allocated_size d"
    and u: "esb_used_bytes d < esb_allocated_size d"
    using assms(1) by (auto simp: valid_def split: option.splits)
  note f = esb_allocate_more_Inr [OF assms(2)]
  have "esb_allocated_size d \<le> esb_allocated_size d'"
    by (simp add: f(1))
  then show ?thesis
    using f(4) [OF st] f(2) u l by (simp add: content_def st del: upt_Suc)
qed

subsection \<open>A failing formatted append\<close>

lemma store_Inl: "store s off bs w = Inl e \<Longrightarrow> e = Undefined"
  by (auto simp: store_def split: if_splits option.splits)

lemma store_content:
  assumes "store (esb_string d) (esb_used_bytes d) bs w = Inr w'"
  shows "content d w' = content d w"
    and "length (heap w') = length (heap w)"
    and "Some c \<noteq> esb_string d \<Longrightarrow> load c w' = load c w"
  using assms
  by (auto simp: store_def content_def storage_def load_update_same load_update_other
        load_Some_less
      split: if_splits option.splits)

lemma esb_append_printf_ap_error:
  assumes "vsnprintf_result r < 0"
  shows "esb_append_printf_ap d r w =
     (case store (esb_string d) (esb_used_bytes d)
             (if size_t_of_int (int_of_size_t
                   (size_t_sub (esb_allocated_size d) (esb_used_bytes d))) = 0
              then []
              else take (size_t_of_int (int_of_size_t
                     (size_t_sub (esb_allocated_size d) (esb_used_bytes d))) - 1) (expanded r)
                   @ [NUL]) w of
        Inl e \<Rightarrow> Inl e
      | Inr w' \<Rightarrow> Inr (d, w'))"
proof -
  have r: "vsnprintf_result r = - 1"
    using assms by (simp add: vsnprintf_result_def split: if_splits)
  have "esb_allocate_more_if_needed d r w = Inr (d, w)"
    by (simp add: esb_allocate_more_if_needed_def r INT_MAX_def size_t_of_int_def
        esb_force_allocation_def)
  then show ?thesis
    by (simp add: esb_append_printf_ap_def vsnprintf_def r Let_def split: sum.splits)
qed

lemma int_of_size_t_small:
  assumes "int n \<le> INT_MAX"
  shows "int_of_size_t n = int n"
proof -
  have "n < 2 ^ 31"
    using assms by (simp add: INT_MAX_def)
  then have "n mod 2 ^ 32 = n"
    by simp
  then show ?thesis
    using assms by (simp add: int_of_size_t_def Let_def)
qed

lemma size_t_of_int_small:
  assumes "int n \<le> INT_MAX"
  shows "size_t_of_int (int n) = n"
proof -
  have "n < 2 ^ 31"
    using assms by (simp add: INT_MAX_def)
  then have "n mod SIZE_WRAP = n"
    by (simp add: SIZE_WRAP_def)
  moreover have "int n mod int SIZE_WRAP = int (n mod SIZE_WRAP)"
    by (simp add: zmod_int)
  ultimately show ?thesis
    by (simp add: size_t_of_int_def)
qed


lemma store_terminator_again:
  assumes "storage d w = Some blk" and "esb_used_bytes d < length blk"
    and "blk ! esb_used_bytes d = NUL"
  shows "store (esb_string d) (esb_used_bytes d) [NUL] w = Inr w"
proof -
  obtain p where p: "esb_string d = Some p" and l: "load p w = Some blk"
    using assms(1) by (auto simp: storage_def split: option.splits)
  have "take (esb_used_bytes d) blk @ [NUL] @ drop (esb_used_bytes d + 1) blk = blk"
    using assms(2,3) id_take_nth_drop [of "esb_used_bytes d" blk] by simp
  moreover have "heap w ! p = Some blk" and "p < length (heap w)"
    using l by (simp_all add: load_def split: if_splits)
  ultimately show ?thesis
    using assms(2) l by (simp add: store_def p list_update_same_conv)
qed

text \<open>
  What a failing render leaves alone: the buffer record, the bytes before offset
  \<open>esb_used_bytes\<close>, every other block and the rest of the process. The bytes from that
  offset on are those the render stored before it failed.
\<close>

lemma esb_append_printf_ap_error_keeps_content:
  assumes "vsnprintf_result in_string < 0"
  shows "(case esb_append_printf_ap data in_string w of
            Inl e \<Rightarrow> e = Undefined
          | Inr (d, w') \<Rightarrow>
              d = data \<and> content d w' = content data w \<and>
              length (heap w') = length (heap w) \<and>
              (\<forall>c. Some c \<noteq> esb_string data \<longrightarrow> load c w' = load c w) \<and>
              heap_only w w') \<and>
         (valid data w \<and> int (esb_allocated_size data - esb_used_bytes data) \<le> INT_MAX \<longrightarrow>
            (\<exists>w'. esb_append_printf_ap data in_string w = Inr (data, w'))) \<and>
         (valid data w \<and> expanded in_string = [] \<longrightarrow>
            esb_append_printf_ap data in_string w = Inr (data, w))"
proof (intro conjI impI)
  let ?n = "size_t_of_int (int_of_size_t
              (size_t_sub (esb_allocated_size data) (esb_used_bytes data)))"
  let ?bs = "if ?n = 0 then [] else take (?n - 1) (expanded in_string) @ [NUL]"
  note e = esb_append_printf_ap_error [OF assms, of data w]
  show "case esb_append_printf_ap data in_string w of
            Inl e \<Rightarrow> e = Undefined
          | Inr (d, w') \<Rightarrow>
              d = data \<and> content d w' = content data w \<and>
              length (heap w') = length (heap w) \<and>
              (\<forall>c. Some c \<noteq> esb_string data \<longrightarrow> load c w' = load c w) \<and>
              heap_only w w'"
  proof (cases "store (esb_string data) (esb_used_bytes data) ?bs w")
    case (Inl x)
    then show ?thesis
      using store_Inl [OF Inl] by (simp add: e)
  next
    case (Inr w')
    then show ?thesis
      using store_content [OF Inr] store_heap_only [OF Inr] by (simp add: e)
  qed
next
  assume a: "valid data w \<and> int (esb_allocated_size data - esb_used_bytes data) \<le> INT_MAX"
  let ?n = "size_t_of_int (int_of_size_t
              (size_t_sub (esb_allocated_size data) (esb_used_bytes data)))"
  let ?bs = "if ?n = 0 then [] else take (?n - 1) (expanded in_string) @ [NUL]"
  note e = esb_append_printf_ap_error [OF assms, of data w]
  show "\<exists>w'. esb_append_printf_ap data in_string w = Inr (data, w')"
  proof (cases "esb_allocated_size data = 0")
    case True
    then have "esb_used_bytes data = 0"
      using a by (simp add: valid_def)
    then have "?n = 0"
      using True by (simp add: size_t_sub_def int_of_size_t_def size_t_of_int_def INT_MAX_def)
    then show ?thesis
      by (simp add: e store_def)
  next
    case False
    then obtain blk where st: "storage data w = Some blk"
      and l: "length blk = esb_allocated_size data"
      and u: "esb_used_bytes data < esb_allocated_size data"
      using a by (auto simp: valid_def split: option.splits)
    obtain p where p: "esb_string data = Some p" and lp: "load p w = Some blk"
      using st by (auto simp: storage_def split: option.splits)
    have sub: "size_t_sub (esb_allocated_size data) (esb_used_bytes data)
                 = esb_allocated_size data - esb_used_bytes data"
      using u by (simp add: size_t_sub_def)
    have n: "?n = esb_allocated_size data - esb_used_bytes data"
      using a by (simp add: sub int_of_size_t_small size_t_of_int_small)
    have "esb_used_bytes data + length ?bs \<le> length blk"
      using u l by (simp add: n)
    then obtain w' where "store (Some p) (esb_used_bytes data) ?bs w = Inr w'"
      using store_ok [OF lp] by blast
    then show ?thesis
      by (simp add: e p)
  qed
next
  assume a: "valid data w \<and> expanded in_string = []"
  let ?n = "size_t_of_int (int_of_size_t
              (size_t_sub (esb_allocated_size data) (esb_used_bytes data)))"
  note e = esb_append_printf_ap_error [OF assms, of data w]
  show "esb_append_printf_ap data in_string w = Inr (data, w)"
  proof (cases "?n = 0")
    case True
    then show ?thesis
      by (simp add: e store_def)
  next
    case False
    have "esb_allocated_size data \<noteq> 0"
    proof
      assume z: "esb_allocated_size data = 0"
      then have "esb_used_bytes data = 0"
        using a by (simp add: valid_def)
      then have "?n = 0"
        using z by (simp add: size_t_sub_def int_of_size_t_def size_t_of_int_def INT_MAX_def)
      then show False using False by simp
    qed
    then obtain blk where st: "storage data w = Some blk"
      and u: "esb_used_bytes data < length blk"
      and z: "blk ! esb_used_bytes data = NUL"
      using a by (auto simp: valid_def split: option.splits)
    show ?thesis
      using False a store_terminator_again [OF st u z] by (simp add: e)
  qed
qed

subsection \<open>The measuring phase\<close>

text \<open>
  For a format that expands without failure, \<open>esb_allocate_more_if_needed\<close> compares the
  capacity with the measured length plus one, whatever the buffer already holds.
\<close>

lemma esb_allocate_more_if_needed_capacity:
  assumes r: "esb_allocate_more_if_needed d in_string w = Inr (d', w')"
    and ok: "\<not> fails in_string" and short: "int (length (expanded in_string)) < INT_MAX"
  shows "esb_allocated_size d' =
           (if esb_allocated_size d < length (expanded in_string) + 1
            then max (length (expanded in_string) + 1) (alloc_size w)
            else esb_allocated_size d)"
    and "esb_used_bytes d' = esb_used_bytes d"
proof -
  let ?n = "length (expanded in_string)"
  have res: "vsnprintf_result in_string = int ?n"
    using ok short by (simp add: vsnprintf_result_def)
  have "int (?n + 1) \<le> INT_MAX"
    using short by simp
  then have "size_t_of_int (int (?n + 1)) = ?n + 1"
    by (rule size_t_of_int_small)
  then have sz: "size_t_of_int (int ?n + 1) = ?n + 1"
    by (simp add: add.commute)
  have f: "esb_force_allocation d (?n + 1) w = Inr (d', w')"
    using r short by (simp add: esb_allocate_more_if_needed_def res sz Let_def)
  show "esb_allocated_size d' =
           (if esb_allocated_size d < ?n + 1 then max (?n + 1) (alloc_size w)
            else esb_allocated_size d)"
  proof (cases "esb_allocated_size d < ?n + 1")
    case True
    then have "esb_allocate_more d (?n + 1 - esb_allocated_size d) w = Inr (d', w')"
      using f by (simp add: esb_force_allocation_def)
    then show ?thesis
      using esb_allocate_more_Inr(1) [of d "?n + 1 - esb_allocated_size d" w d' w'] True
      by simp
  next
    case False
    then show ?thesis
      using f by (simp add: esb_force_allocation_def)
  qed
  show "esb_used_bytes d' = esb_used_bytes d"
  proof (cases "esb_allocated_size d < ?n + 1")
    case True
    then have "esb_allocate_more d (?n + 1 - esb_allocated_size d) w = Inr (d', w')"
      using f by (simp add: esb_force_allocation_def)
    then show ?thesis
      by (rule esb_allocate_more_Inr(2))
  next
    case False
    then show ?thesis
      using f by (simp add: esb_force_allocation_def)
  qed
qed

subsection \<open>The detached copy\<close>

lemma esb_destructor_frame:
  assumes "esb_destructor d w = Inr (d', w')" and "Some c \<noteq> esb_string d"
  shows "load c w' = load c w"
  using assms
  by (auto simp: esb_destructor_def free_def load_update_other
      split: if_splits option.splits sum.splits)

lemma c_str_le_terminator:
  assumes "u < length blk" and "blk ! u = NUL"
  shows "length (c_str blk) \<le> u" and "NUL \<in> set blk"
proof -
  show "NUL \<in> set blk"
    using assms by (metis nth_mem)
  show "length (c_str blk) \<le> u"
  proof (rule ccontr)
    assume "\<not> length (c_str blk) \<le> u"
    then have "u < length (takeWhile (\<lambda>c. c \<noteq> NUL) blk)"
      by (simp add: c_str_def)
    then have "blk ! u \<noteq> NUL"
      using nth_length_takeWhile takeWhile_nth nth_mem set_takeWhileD
      by (metis (mono_tags, lifting))
    then show False using assms(2) by simp
  qed
qed


lemma esb_get_copy_valid:
  assumes v: "valid d w" and u: "esb_used_bytes d \<noteq> 0" and a: "esb_used_bytes d + 1 \<le> avail w"
  shows "\<exists>sblk blk. storage d w = Some sblk \<and> NUL \<in> set sblk \<and>
           esb_get_copy d w = Inr (Some (length (heap w)), d, w\<lparr>heap := heap w @ [Some blk]\<rparr>) \<and>
           length blk = esb_used_bytes d + 1 \<and>
           take (length (c_str sblk) + 1) blk = c_str sblk @ [NUL]"
proof -
  have cap: "esb_allocated_size d \<noteq> 0"
    using v u by (auto simp: valid_def split: if_splits)
  then obtain sblk where st: "storage d w = Some sblk"
    and us: "esb_used_bytes d < length sblk" and z: "sblk ! esb_used_bytes d = NUL"
    using v by (auto simp: valid_def split: option.splits)
  obtain p where p: "esb_string d = Some p" and lp: "load p w = Some sblk"
    using st by (auto simp: storage_def split: option.splits)
  note t = c_str_le_terminator [OF us z]
  define n where "n = esb_used_bytes d + 1"
  define jb where "jb = map (junk w) [0..<n]"
  define w1 where "w1 = w\<lparr>heap := heap w @ [Some jb]\<rparr>"
  define bs where "bs = take (length (c_str sblk)) sblk @ [NUL]"
  define blk where "blk = bs @ drop (length bs) jb"
  let ?copy = "length (heap w)"
  have ljb: "length jb = n"
    by (simp add: jb_def)
  have m: "malloc n w = (Some ?copy, w1)"
    using a by (simp add: malloc_def w1_def jb_def n_def)
  have g: "esb_get_string d w1 = Inr (esb_string d, d, w1)"
    using cap by (simp add: esb_get_string_def)
  have lp1: "load p w1 = Some sblk"
    using lp load_Some_less [OF lp] by (simp add: w1_def load_append_old)
  have lc1: "load ?copy w1 = Some jb"
    by (simp add: load_def w1_def)
  have sl: "strlen sblk = Some (length (c_str sblk))"
    using t(2) by (simp add: strlen_def)
  have lbs: "length bs \<le> length jb"
    using t(1) us by (simp add: bs_def ljb n_def)
  have ne: "bs \<noteq> []"
    by (simp add: bs_def)
  have "store (Some ?copy) 0 bs w1
          = Inr (w1\<lparr>heap := (heap w1)[?copy := Some (take 0 jb @ bs @ drop (0 + length bs) jb)]\<rparr>)"
    using lc1 lbs ne unfolding store_def by simp
  moreover have "w1\<lparr>heap := (heap w1)[?copy := Some (take 0 jb @ bs @ drop (0 + length bs) jb)]\<rparr>
                  = w\<lparr>heap := heap w @ [Some blk]\<rparr>"
    by (simp add: w1_def blk_def)
  ultimately have s: "store (Some ?copy) 0 bs w1 = Inr (w\<lparr>heap := heap w @ [Some blk]\<rparr>)"
    by simp
  have c: "strcpy (Some ?copy) (esb_string d) w1 = Inr (w\<lparr>heap := heap w @ [Some blk]\<rparr>)"
    using s by (simp add: strcpy_def p lp1 sl bs_def)
  have r: "esb_get_copy d w = Inr (Some ?copy, d, w\<lparr>heap := heap w @ [Some blk]\<rparr>)"
    using u m g c by (simp add: esb_get_copy_def esb_string_len_def Let_def n_def)
  have "take (length (c_str sblk)) sblk = c_str sblk"
    unfolding c_str_def by (rule takeWhile_eq_take [symmetric])
  then have bs: "bs = c_str sblk @ [NUL]"
    by (simp add: bs_def)
  have "length blk = esb_used_bytes d + 1"
    using lbs by (simp add: blk_def ljb n_def)
  moreover have "take (length (c_str sblk) + 1) blk = c_str sblk @ [NUL]"
    by (simp add: blk_def bs)
  ultimately show ?thesis
    using st t(2) r by blast
qed


lemma c_str_of_prefix:
  assumes "take (length xs + 1) blk = xs @ [NUL]" and "NUL \<notin> set xs"
  shows "c_str blk = xs" and "NUL \<in> set blk"
proof -
  have b: "blk = (xs @ [NUL]) @ drop (length xs + 1) blk"
    using assms(1) append_take_drop_id [of "length xs + 1" blk] by simp
  have "takeWhile (\<lambda>c. c \<noteq> NUL) (xs @ (NUL # drop (length xs + 1) blk))
          = xs @ takeWhile (\<lambda>c. c \<noteq> NUL) (NUL # drop (length xs + 1) blk)"
    by (rule takeWhile_append2) (use assms(2) in auto)
  then have "takeWhile (\<lambda>c. c \<noteq> NUL) ((xs @ [NUL]) @ drop (length xs + 1) blk) = xs"
    by simp
  then show "c_str blk = xs"
    unfolding c_str_def using b by simp
  have "NUL \<in> set ((xs @ [NUL]) @ drop (length xs + 1) blk)"
    by simp
  then show "NUL \<in> set blk"
    by (subst b)
qed

text \<open>
  \<^verbatim>\<open>malloc\<close> is not checked in \<open>esb_get_copy\<close>: when it returns the null pointer,
  \<^verbatim>\<open>strcpy\<close> stores through it.
\<close>

lemma esb_get_copy_unchecked_malloc:
  assumes "valid d w" and "esb_used_bytes d \<noteq> 0" and "\<not> esb_used_bytes d + 1 \<le> avail w"
  shows "esb_get_copy d w = Inl Undefined"
proof -
  have "esb_allocated_size d \<noteq> 0"
    using assms(1,2) by (auto simp: valid_def split: if_splits)
  then show ?thesis
    using assms(2,3)
    by (simp add: esb_get_copy_def esb_string_len_def malloc_def esb_get_string_def strcpy_def
        store_def Let_def split: option.splits)
qed

subsection \<open>Where the invariant is kept\<close>

text \<open>
  Every call keeps \<open>valid\<close>, except the formatted append and \<open>esb_force_allocation\<close>
  on a buffer that has no storage yet.
\<close>

lemma valid_alloc_size: "valid d (w\<lparr>alloc_size := n\<rparr>) = valid d w"
  by (simp add: valid_def storage_def load_def split: option.splits)

lemma esb_allocate_more_valid:
  assumes v: "valid d w" and c: "esb_allocated_size d \<noteq> 0"
    and r: "esb_allocate_more d len w = Inr (d', w')"
  shows "valid d' w'"
proof -
  obtain old where st: "storage d w = Some old" and l: "length old = esb_allocated_size d"
    and u: "esb_used_bytes d < esb_allocated_size d" and z: "old ! esb_used_bytes d = NUL"
    using v c by (auto simp: valid_def split: option.splits)
  note f = esb_allocate_more_Inr [OF r]
  have le: "esb_allocated_size d \<le> esb_allocated_size d'"
    by (simp add: f(1))
  have st': "storage d' w' = Some (old @ map (junk w) [length old..<esb_allocated_size d'])"
    using f(4) [OF st] le l by simp
  have "c \<noteq> 0" if "c = esb_allocated_size d'" for c
    using that le c by simp
  then show ?thesis
    using le l u z f(2) by (simp add: valid_def st' nth_append del: upt_Suc)
qed

lemma esb_get_string_keeps_valid:
  assumes "valid d w" and "esb_get_string d w = Inr (p, d', w')"
  shows "valid d' w'"
  using assms
  by (auto simp: esb_get_string_def split: if_splits sum.splits dest: valid_init(1))

lemma esb_empty_string_valid:
  assumes v: "valid d w" and r: "esb_empty_string d w = Inr (d', w')"
  shows "valid d' w'"
proof -
  obtain d1 w1 where 1: "(if esb_allocated_size d = 0 then init_esb_string d (alloc_size w) w
            else Inr (d, w)) = Inr (d1, w1)"
    and 2: "store (esb_string d1) 0 [NUL] w1 = Inr w'"
    and d': "d' = d1\<lparr>esb_used_bytes := 0\<rparr>"
    using r by (auto simp: esb_empty_string_def Let_def split: sum.splits)
  have v1: "valid d1 w1" and c1: "esb_allocated_size d1 \<noteq> 0"
    using 1 v by (auto split: if_splits dest: valid_init(1,4) [OF v])
  then obtain blk where st: "storage d1 w1 = Some blk" and l: "length blk = esb_allocated_size d1"
    by (auto simp: valid_def split: option.splits)
  obtain q where q: "esb_string d1 = Some q" and lq: "load q w1 = Some blk"
    using st by (auto simp: storage_def split: option.splits)
  have "load q w' = Some (take 0 blk @ [NUL] @ drop (0 + length [NUL]) blk)"
    using 2 lq c1 l unfolding q store_def
    by (auto simp: load_update_same load_Some_less split: if_splits)
  then have "storage d' w' = Some (NUL # drop 1 blk)"
    by (simp add: storage_def d' q)
  then show ?thesis
    using c1 l by (simp add: valid_def d')
qed

lemma esb_get_copy_keeps_valid:
  assumes v: "valid d w" and r: "esb_get_copy d w = Inr (p, d', w')"
  shows "valid d' w'"
proof (cases "esb_used_bytes d = 0")
  case True
  then show ?thesis
    using v r by (simp add: esb_get_copy_def esb_string_len_def)
next
  case False
  have a: "esb_used_bytes d + 1 \<le> avail w"
    using esb_get_copy_unchecked_malloc [OF v False] r by auto
  obtain sblk blk where st: "storage d w = Some sblk"
    and e: "esb_get_copy d w = Inr (Some (length (heap w)), d, w\<lparr>heap := heap w @ [Some blk]\<rparr>)"
    using esb_get_copy_valid [OF v False a] by blast
  have d': "d' = d" and w': "w' = w\<lparr>heap := heap w @ [Some blk]\<rparr>"
    using r e by simp_all
  obtain q where q: "esb_string d = Some q" and lq: "load q w = Some sblk"
    using st by (auto simp: storage_def split: option.splits)
  have "storage d w' = storage d w"
    using load_Some_less [OF lq] by (simp add: storage_def q w' load_append_old)
  then show ?thesis
    using v by (simp add: valid_def d')
qed

lemma step_keeps_valid:
  assumes v: "valid d w" and k: "keeps_terminator c d" and r: "step c (d, w) = Inr (d', w')"
  shows "valid d' w'"
proof (cases c)
  case (Force_allocation minlen)
  show ?thesis
  proof (cases "esb_allocated_size d < minlen")
    case True
    then have "esb_allocated_size d \<noteq> 0"
      using k Force_allocation by auto
    moreover have "esb_allocate_more d (minlen - esb_allocated_size d) w = Inr (d', w')"
      using r Force_allocation True by (simp add: esb_force_allocation_def)
    ultimately show ?thesis
      using esb_allocate_more_valid [OF v] by blast
  next
    case False
    then show ?thesis
      using r v Force_allocation by (simp add: esb_force_allocation_def)
  qed
next
  case (Appendn s len)
  then have e: "esb_appendn d s len w = Inr (d', w')"
    using r by simp
  then obtain t where "strlen s = Some t"
    by (auto simp: esb_appendn_def split: option.splits)
  then show ?thesis
    using esb_appendn_valid [OF v, of s t len] e by simp
next
  case (Append s)
  show ?thesis
  proof (cases s)
    case None
    then show ?thesis
      using r v Append by (simp add: esb_append_def)
  next
    case (Some bs)
    then have e: "esb_append d (Some bs) w = Inr (d', w')"
      using r Append by simp
    then have "NUL \<in> set bs"
      by (auto simp: esb_append_def strlen_def split: if_splits)
    then show ?thesis
      using esb_append_valid [OF v, of bs] e by simp
  qed
next
  case (Append_printf x)
  then show ?thesis using k by simp
next
  case Get_string
  then show ?thesis
    using r esb_get_string_keeps_valid [OF v] by (auto split: sum.splits)
next
  case Empty_string
  then show ?thesis
    using r esb_empty_string_valid [OF v] by simp
next
  case Get_copy
  then show ?thesis
    using r esb_get_copy_keeps_valid [OF v] by (auto split: sum.splits)
next
  case (Alloc_size n)
  then show ?thesis
    using r v by (auto simp: esb_alloc_size_def valid_alloc_size)
qed

subsection \<open>Capacities along a sequence of calls\<close>

lemma capacities_hd: "capacities cs s \<noteq> [] \<and> hd (capacities cs s) = esb_allocated_size (fst s)"
  by (cases cs) (simp_all add: esb_get_allocated_size_def)

subsection \<open>When an append returns\<close>






section \<open>The claims\<close>

text \<open>
  C1 does not hold of the code. \<open>esb_allocate_more_if_needed\<close> forces the capacity to the
  measured length plus one and leaves \<open>esb_used_bytes\<close> out of the sum, although its
  comment says "allocate enough space to hold the full text". With \<open>alloc_size = 16\<close>, a
  buffer holding the five bytes \<open>aaaa \<close> has capacity 17; a format that expands to 20
  bytes forces the capacity to 21, not to \<open>5 + 20 + 1\<close>, and the append then stores only
  15 of the 20 bytes.
\<close>

theorem esb_append_printf_under_allocates:
  "esb_append esb_constructor (Some (''aaaa '' @ [NUL])) (fresh_world 16) =
     Inr (\<lparr>esb_string = Some 0, esb_allocated_size = 17, esb_used_bytes = 5\<rparr>,
          (fresh_world 16)\<lparr>heap := [Some (''aaaa '' @ [NUL] @ replicate 11 (CHR ''?''))]\<rparr>) \<and>
   vsnprintf_result \<lparr>expanded = ''01234567890123456789'', fails = False\<rparr> = 20 \<and>
   esb_allocate_more_if_needed
       \<lparr>esb_string = Some 0, esb_allocated_size = 17, esb_used_bytes = 5\<rparr>
       \<lparr>expanded = ''01234567890123456789'', fails = False\<rparr>
       ((fresh_world 16)\<lparr>heap := [Some (''aaaa '' @ [NUL] @ replicate 11 (CHR ''?''))]\<rparr>) =
     Inr (\<lparr>esb_string = Some 1, esb_allocated_size = 21, esb_used_bytes = 5\<rparr>,
          (fresh_world 16)\<lparr>heap := [None, Some (''aaaa '' @ [NUL] @ replicate 11 (CHR ''?'') @ ''????'')]\<rparr>) \<and>
   \<not> 5 + 20 + 1 \<le> esb_allocated_size
         \<lparr>esb_string = Some 1, esb_allocated_size = 21, esb_used_bytes = 5\<rparr> \<and>
   esb_append_printf_ap
       \<lparr>esb_string = Some 0, esb_allocated_size = 17, esb_used_bytes = 5\<rparr>
       \<lparr>expanded = ''01234567890123456789'', fails = False\<rparr>
       ((fresh_world 16)\<lparr>heap := [Some (''aaaa '' @ [NUL] @ replicate 11 (CHR ''?''))]\<rparr>) =
     Inr (\<lparr>esb_string = Some 1, esb_allocated_size = 21, esb_used_bytes = 20\<rparr>,
          (fresh_world 16)\<lparr>heap := [None, Some (''aaaa 012345678901234'' @ [NUL])]\<rparr>)"
  by (simp add: esb_defs libc_defs fresh_world_def Let_def map_replicate_const)

text \<open>
  C2 does not hold of the code. With \<open>alloc_size = 16\<close>, appending 16 bytes to a
  constructed buffer fills a block of 17 bytes up to the terminator; a formatted append of
  one byte then finds one byte of room, \<open>vsnprintf\<close> stores only the terminator and reports
  1, and since \<open>netlen < expandedlen\<close> is false the length becomes 17, the capacity. The
  next append stores its terminator behind the block. Also, \<open>esb_force_allocation\<close> on a
  constructed buffer hands out uninitialised memory, so no terminator is at offset 0.
\<close>

theorem esb_append_printf_fills_capacity:
  "run [Append (Some (''0123456789abcdef'' @ [NUL])),
        Append_printf \<lparr>expanded = ''x'', fails = False\<rparr>]
     (esb_constructor, fresh_world 16) =
     Inr (\<lparr>esb_string = Some 0, esb_allocated_size = 17, esb_used_bytes = 17\<rparr>,
          (fresh_world 16)\<lparr>heap := [Some (''0123456789abcdef'' @ [NUL])]\<rparr>) \<and>
   \<not> valid \<lparr>esb_string = Some 0, esb_allocated_size = 17, esb_used_bytes = 17\<rparr>
       ((fresh_world 16)\<lparr>heap := [Some (''0123456789abcdef'' @ [NUL])]\<rparr>) \<and>
   run [Append (Some (''0123456789abcdef'' @ [NUL])),
        Append_printf \<lparr>expanded = ''x'', fails = False\<rparr>,
        Append (Some (''y'' @ [NUL]))]
     (esb_constructor, fresh_world 16) = Inl Undefined \<and>
   run [Force_allocation 7] (esb_constructor, fresh_world 16) =
     Inr (\<lparr>esb_string = Some 0, esb_allocated_size = 16, esb_used_bytes = 0\<rparr>,
          (fresh_world 16)\<lparr>heap := [Some (replicate 16 (CHR ''?''))]\<rparr>) \<and>
   \<not> valid \<lparr>esb_string = Some 0, esb_allocated_size = 16, esb_used_bytes = 0\<rparr>
       ((fresh_world 16)\<lparr>heap := [Some (replicate 16 (CHR ''?''))]\<rparr>)"
  by (simp add: esb_defs libc_defs valid_def storage_def fresh_world_def Let_def map_replicate_const)

text \<open>
  C3, as the code has it. When the capacity is at least \<open>minlen\<close>,
  \<open>esb_force_allocation\<close> changes nothing. When it is below, the deficit goes to
  \<open>esb_allocate_more\<close>, which does not allocate less than \<open>alloc_size\<close>: the capacity
  becomes \<open>max minlen alloc_size\<close>, which is \<open>minlen\<close> only when \<open>minlen\<close> is at least
  \<open>alloc_size\<close>. The buffer then owns a block of that size, its length is the same, and
  the content of a valid buffer is kept. The call returns whenever the allocator grants the
  size and the storage pointer is null or live; otherwise the process exits naming the
  size, or the pointer was dangling.
\<close>

theorem esb_force_allocation_capacity:
  "(minlen \<le> esb_allocated_size data \<longrightarrow> esb_force_allocation data minlen w = Inr (data, w)) \<and>
   (esb_allocated_size data < minlen \<longrightarrow>
      (case esb_force_allocation data minlen w of
         Inl e \<Rightarrow> e = Exit_realloc (max minlen (alloc_size w)) \<or>
                   (e = Undefined \<and> esb_string data \<noteq> None \<and> storage data w = None)
       | Inr (d, w') \<Rightarrow>
           esb_allocated_size d = max minlen (alloc_size w) \<and>
           esb_used_bytes d = esb_used_bytes data \<and>
           (\<exists>blk. storage d w' = Some blk \<and> length blk = esb_allocated_size d) \<and>
           (valid data w \<longrightarrow> content d w' = content data w))) \<and>
   (esb_allocated_size data < minlen \<and> max minlen (alloc_size w) \<le> avail w \<and>
    (esb_string data = None \<or> storage data w \<noteq> None) \<longrightarrow>
      (\<exists>d w'. esb_force_allocation data minlen w = Inr (d, w')))"
proof (intro conjI impI)
  assume "minlen \<le> esb_allocated_size data"
  then show "esb_force_allocation data minlen w = Inr (data, w)"
    by (simp add: esb_force_allocation_def)
next
  assume lt: "esb_allocated_size data < minlen"
  let ?inc = "minlen - esb_allocated_size data"
  have e: "esb_force_allocation data minlen w = esb_allocate_more data ?inc w"
    using lt by (simp add: esb_force_allocation_def)
  have m: "esb_allocated_size data + ?inc = minlen"
    using lt by simp
  show "case esb_force_allocation data minlen w of
         Inl e \<Rightarrow> e = Exit_realloc (max minlen (alloc_size w)) \<or>
                   (e = Undefined \<and> esb_string data \<noteq> None \<and> storage data w = None)
       | Inr (d, w') \<Rightarrow>
           esb_allocated_size d = max minlen (alloc_size w) \<and>
           esb_used_bytes d = esb_used_bytes data \<and>
           (\<exists>blk. storage d w' = Some blk \<and> length blk = esb_allocated_size d) \<and>
           (valid data w \<longrightarrow> content d w' = content data w)"
  proof (cases "esb_allocate_more data ?inc w")
    case (Inl x)
    then show ?thesis
      using esb_allocate_more_Inl [OF Inl] m by (simp add: e)
  next
    case (Inr r)
    obtain d w' where r: "esb_allocate_more data ?inc w = Inr (d, w')"
      using Inr by (cases r) simp
    show ?thesis
      using esb_allocate_more_Inr(1,2) [OF r] esb_allocate_more_sized [OF r]
        esb_allocate_more_content [OF _ r] m
      by (simp add: e r)
  qed
next
  assume a: "esb_allocated_size data < minlen \<and> max minlen (alloc_size w) \<le> avail w \<and>
    (esb_string data = None \<or> storage data w \<noteq> None)"
  then have "esb_force_allocation data minlen w
               = esb_allocate_more data (minlen - esb_allocated_size data) w"
    by (simp add: esb_force_allocation_def)
  moreover have "esb_allocated_size data + (minlen - esb_allocated_size data) = minlen"
    using a by simp
  ultimately show "\<exists>d w'. esb_force_allocation data minlen w = Inr (d, w')"
    using esb_allocate_more_returns [of data w "minlen - esb_allocated_size data"] a by simp
qed

theorem esb_force_allocation_capacity_witness:
  "esb_allocated_size esb_constructor < 50 \<and> max 50 (alloc_size (fresh_world 1)) \<le> avail (fresh_world 1) \<and>
   valid esb_constructor (fresh_world 1) \<and>
   esb_force_allocation esb_constructor 50 (fresh_world 1) =
     Inr (\<lparr>esb_string = Some 0, esb_allocated_size = 50, esb_used_bytes = 0\<rparr>,
          (fresh_world 1)\<lparr>heap := [Some (replicate 50 (CHR ''?''))]\<rparr>) \<and>
   7 \<le> esb_allocated_size \<lparr>esb_string = Some 0, esb_allocated_size = 50, esb_used_bytes = 0\<rparr> \<and>
   esb_force_allocation \<lparr>esb_string = Some 0, esb_allocated_size = 50, esb_used_bytes = 0\<rparr> 7
       ((fresh_world 1)\<lparr>heap := [Some (replicate 50 (CHR ''?''))]\<rparr>) =
     Inr (\<lparr>esb_string = Some 0, esb_allocated_size = 50, esb_used_bytes = 0\<rparr>,
          (fresh_world 1)\<lparr>heap := [Some (replicate 50 (CHR ''?''))]\<rparr>)"
  using esb_force_allocation_capacity [of 50 esb_constructor "fresh_world 1"]
    esb_force_allocation_capacity
      [of 7 "\<lparr>esb_string = Some 0, esb_allocated_size = 50, esb_used_bytes = 0\<rparr>"
          "(fresh_world 1)\<lparr>heap := [Some (replicate 50 (CHR ''?''))]\<rparr>"]
  by (simp add: esb_defs libc_defs valid_def fresh_world_def Let_def map_replicate_const)

text \<open>
  C3 as stated fails where \<open>minlen\<close> is below \<open>alloc_size\<close>: on a constructed buffer with
  \<open>alloc_size = 16\<close>, forcing 7 bytes gives a capacity of 16.
\<close>

theorem esb_force_allocation_exact_counterexample:
  "esb_allocated_size esb_constructor < 7 \<and>
   esb_force_allocation esb_constructor 7 (fresh_world 16) =
     Inr (\<lparr>esb_string = Some 0, esb_allocated_size = 16, esb_used_bytes = 0\<rparr>,
          (fresh_world 16)\<lparr>heap := [Some (replicate 16 (CHR ''?''))]\<rparr>) \<and>
   esb_allocated_size \<lparr>esb_string = Some 0, esb_allocated_size = 16, esb_used_bytes = 0\<rparr> \<noteq> 7"
  by (simp add: esb_defs libc_defs fresh_world_def Let_def map_replicate_const)





text \<open>
  C6. When the render reports a negative length, \<open>esb_append_printf_ap\<close> returns at
  once and the length is not advanced. But the render was handed the live storage at offset
  \<open>esb_used_bytes\<close>, and what it had produced before failing stays there, over the
  terminator, which the code does not store back. After appending \<open>ab\<close> to a
  constructed buffer, a render that fails after producing \<open>xyz\<close> leaves the length at 2
  while the string read through the storage pointer has become \<open>abxyz\<close>: the call is
  not a no-op on the observable content, and the partial bytes are in it.
\<close>

theorem esb_append_printf_ap_error_leaves_output:
  "run [Append (Some (''ab'' @ [NUL]))] (esb_constructor, fresh_world 16) =
     Inr (\<lparr>esb_string = Some 0, esb_allocated_size = 17, esb_used_bytes = 2\<rparr>,
          (fresh_world 16)\<lparr>heap := [Some (''ab'' @ [NUL] @ replicate 14 (CHR ''?''))]\<rparr>) \<and>
   string_at (Some 0)
       ((fresh_world 16)\<lparr>heap := [Some (''ab'' @ [NUL] @ replicate 14 (CHR ''?''))]\<rparr>) =
     Some ''ab'' \<and>
   vsnprintf_result \<lparr>expanded = ''xyz'', fails = True\<rparr> < 0 \<and>
   esb_append_printf_ap \<lparr>esb_string = Some 0, esb_allocated_size = 17, esb_used_bytes = 2\<rparr>
       \<lparr>expanded = ''xyz'', fails = True\<rparr>
       ((fresh_world 16)\<lparr>heap := [Some (''ab'' @ [NUL] @ replicate 14 (CHR ''?''))]\<rparr>) =
     Inr (\<lparr>esb_string = Some 0, esb_allocated_size = 17, esb_used_bytes = 2\<rparr>,
          (fresh_world 16)\<lparr>heap := [Some (''abxyz'' @ [NUL] @ replicate 11 (CHR ''?''))]\<rparr>) \<and>
   string_at (Some 0)
       ((fresh_world 16)\<lparr>heap := [Some (''abxyz'' @ [NUL] @ replicate 11 (CHR ''?''))]\<rparr>) =
     Some ''abxyz''"
  by (simp add: esb_defs libc_defs string_at_def fresh_world_def Let_def map_replicate_const)

text \<open>
  C7. Over any sequence of calls on one buffer, from any state of the buffer and the
  process, the capacities observed before the first call and after each call that returns
  are non-decreasing. The calls are those that can change the buffer or the process
  (\<open>esb_string_len\<close> and \<open>esb_get_allocated_size\<close> only read), in any order and with
  any arguments, between the constructor, which starts the buffer's life, and the
  destructor, which ends it; \<open>esb_alloc_size\<close> may change the growth quantum in between.
\<close>

theorem capacity_never_decreases: "sorted (capacities cs s)"
proof (induction cs arbitrary: s)
  case Nil
  show ?case by simp
next
  case (Cons c cs)
  show ?case
  proof (cases "step c s")
    case (Inl e)
    then show ?thesis by simp
  next
    case (Inr s')
    obtain d w d' w' where s: "s = (d, w)" "s' = (d', w')"
      by (cases s, cases s') auto
    have le: "esb_allocated_size d \<le> esb_allocated_size d'"
      using step_evolves [of c d w d' w'] Inr s by (simp add: evolves_def)
    have srt: "sorted (capacities cs s')"
      by (rule Cons.IH)
    have "\<forall>y \<in> set (capacities cs s'). esb_allocated_size d' \<le> y"
    proof
      fix y assume y: "y \<in> set (capacities cs s')"
      obtain x xs where xs: "capacities cs s' = x # xs"
        using capacities_hd [of cs s'] by (cases "capacities cs s'") auto
      have "x = esb_allocated_size d'"
        using capacities_hd [of cs s'] xs s by simp
      then show "esb_allocated_size d' \<le> y"
        using srt y xs by auto
    qed
    then show ?thesis
      using Inr srt le s by (auto simp: esb_get_allocated_size_def)
  qed
qed

theorem capacity_never_decreases_witness:
  "capacities [Append (Some (''a'' @ [NUL])), Append (Some (''b'' @ [NUL])),
               Append (Some (''c'' @ [NUL])), Empty_string]
     (esb_constructor, fresh_world 1) = [0, 2, 3, 4, 4] \<and>
   sorted (capacities [Append (Some (''a'' @ [NUL])), Append (Some (''b'' @ [NUL])),
               Append (Some (''c'' @ [NUL])), Empty_string]
     (esb_constructor, fresh_world 1))"
  using capacity_never_decreases
    [of "[Append (Some (''a'' @ [NUL])), Append (Some (''b'' @ [NUL])),
          Append (Some (''c'' @ [NUL])), Empty_string]" "(esb_constructor, fresh_world 1)"]
  by (simp add: esb_append_def esb_appendn_internal_def init_esb_string_def
      esb_allocate_more_def esb_empty_string_def esb_constructor_def
      esb_get_allocated_size_def malloc_def realloc_def store_def load_def strncpy_def
      strncpy_bytes_def strlen_def c_str_def NUL_def size_t_sub_def SIZE_WRAP_def
      fresh_world_def Let_def)

text \<open>
  C8, where the size is representable. On a buffer of capacity 0, when
  \<open>max min_len alloc_size\<close> is below \<^verbatim>\<open>SIZE_MAX\<close>, \<open>init_esb_string\<close> allocates one
  block of exactly \<open>max min_len alloc_size + 1\<close> bytes, sets the length to 0 and stores
  the terminator at offset 0; when the allocator refuses that size the process exits,
  naming it.
\<close>

theorem init_esb_string_allocates:
  assumes "esb_allocated_size data = 0" and "max min_len (alloc_size w) < SIZE_MAX"
  shows "if max min_len (alloc_size w) + 1 \<le> avail w
         then \<exists>d w' blk. init_esb_string data min_len w = Inr (d, w') \<and>
                esb_allocated_size d = max min_len (alloc_size w) + 1 \<and>
                esb_used_bytes d = 0 \<and>
                storage d w' = Some blk \<and>
                length blk = max min_len (alloc_size w) + 1 \<and>
                blk ! 0 = NUL \<and>
                length (heap w') = length (heap w) + 1
         else init_esb_string data min_len w = Inl (Exit_alloc (max min_len (alloc_size w) + 1))"
proof (cases "max min_len (alloc_size w) + 1 \<le> avail w")
  case True
  then obtain d w' where r: "init_esb_string data min_len w = Inr (d, w')"
    using init_esb_string_returns [OF assms] by blast
  note f = init_esb_string_Inr [OF assms(1) r]
  note e = init_size_exact [OF assms(2)]
  define blk where "blk = NUL # map (junk w) [1..<max min_len (alloc_size w) + 1]"
  have h: "heap w' = heap w @ [Some blk]"
    using f(4) unfolding e blk_def .
  have c: "esb_allocated_size d = max min_len (alloc_size w) + 1"
    using f(2) unfolding e .
  have "storage d w' = Some blk"
    by (simp add: storage_def load_def f(1) h)
  moreover have "length blk = max min_len (alloc_size w) + 1" and "blk ! 0 = NUL"
    by (simp_all add: blk_def del: upt_Suc)
  moreover have "length (heap w') = length (heap w) + 1"
    by (simp add: h)
  ultimately show ?thesis
    using True r c f(3) by auto
next
  case False
  then show ?thesis
    using init_esb_string_fails [OF assms] by simp
qed

theorem init_esb_string_allocates_witness:
  "esb_allocated_size esb_constructor = 0 \<and>
   max 20 (alloc_size (fresh_world 16)) < SIZE_MAX \<and>
   (\<exists>d w' blk. init_esb_string esb_constructor 20 (fresh_world 16) = Inr (d, w') \<and>
      esb_allocated_size d = 21 \<and> esb_used_bytes d = 0 \<and> storage d w' = Some blk \<and>
      length blk = 21 \<and> blk ! 0 = NUL \<and> length (heap w') = 1)"
  using init_esb_string_allocates [of esb_constructor 20 "fresh_world 16"]
  by (simp add: esb_constructor_def fresh_world_def SIZE_MAX_def)

text \<open>
  C8 as stated fails at \<open>min_len = SIZE_MAX\<close>, and as well when the growth quantum has
  been set to \<^verbatim>\<open>SIZE_MAX\<close> with \<open>esb_alloc_size\<close>: the sum with 1 is taken in
  \<^verbatim>\<open>size_t\<close> and is 0, so the request is for 0 bytes, the allocator grants it, and the
  block has no byte at offset 0 for the terminator. No block of
  \<open>max min_len alloc_size + 1\<close> bytes is allocated, and the process does not exit for
  lack of memory either.
\<close>

theorem init_esb_string_wraps_counterexample:
  "esb_allocated_size esb_constructor = 0 \<and>
   (max SIZE_MAX (alloc_size (fresh_world 16)) + 1) mod SIZE_WRAP = 0 \<and>
   malloc 0 (fresh_world 16) = (Some 0, (fresh_world 16)\<lparr>heap := [Some []]\<rparr>) \<and>
   init_esb_string esb_constructor SIZE_MAX (fresh_world 16) = Inl Undefined \<and>
   esb_get_string esb_constructor (esb_alloc_size SIZE_MAX (fresh_world 16)) = Inl Undefined"
  by (simp add: esb_defs libc_defs SIZE_MAX_def fresh_world_def Let_def)

text \<open>
  C9. With length 0 \<open>esb_get_copy\<close> returns the null pointer and changes nothing. On a
  valid buffer with content, when the allocator grants \<open>length + 1\<close> bytes, it returns a
  block that was not live before, of \<open>length + 1\<close> bytes, holding the same terminated
  string as the one \<open>esb_get_string\<close> returns; the buffer record and every block that
  existed are unchanged; and whatever calls are made on the source buffer afterwards, the
  destructor included, the copy keeps its bytes.
\<close>

theorem esb_get_copy_detached:
  "(esb_string_len data = 0 \<longrightarrow> esb_get_copy data w = Inr (None, data, w)) \<and>
   (valid data w \<and> esb_string_len data \<noteq> 0 \<and> esb_string_len data + 1 \<le> avail w \<longrightarrow>
      (\<exists>copy w' blk.
          esb_get_copy data w = Inr (Some copy, data, w') \<and>
          load copy w = None \<and> load copy w' = Some blk \<and>
          length blk = esb_string_len data + 1 \<and>
          esb_get_string data w = Inr (esb_string data, data, w) \<and>
          string_at (esb_string data) w \<noteq> None \<and>
          string_at (Some copy) w' = string_at (esb_string data) w \<and>
          (\<forall>c. c \<noteq> copy \<longrightarrow> load c w' = load c w) \<and>
          heap_only w w' \<and>
          (\<forall>cs d2 w2. run cs (data, w') = Inr (d2, w2) \<longrightarrow>
              load copy w2 = Some blk \<and>
              (\<forall>d3 w3. esb_destructor d2 w2 = Inr (d3, w3) \<longrightarrow> load copy w3 = Some blk))))"
proof (intro conjI impI)
  assume "esb_string_len data = 0"
  then show "esb_get_copy data w = Inr (None, data, w)"
    by (simp add: esb_get_copy_def)
next
  assume a: "valid data w \<and> esb_string_len data \<noteq> 0 \<and> esb_string_len data + 1 \<le> avail w"
  then have v: "valid data w" and u: "esb_used_bytes data \<noteq> 0"
    and av: "esb_used_bytes data + 1 \<le> avail w"
    by (simp_all add: esb_string_len_def)
  obtain sblk blk where st: "storage data w = Some sblk" and ns: "NUL \<in> set sblk"
    and r: "esb_get_copy data w
              = Inr (Some (length (heap w)), data, w\<lparr>heap := heap w @ [Some blk]\<rparr>)"
    and lb: "length blk = esb_used_bytes data + 1"
    and tk: "take (length (c_str sblk) + 1) blk = c_str sblk @ [NUL]"
    using esb_get_copy_valid [OF v u av] by blast
  let ?copy = "length (heap w)"
  let ?w' = "w\<lparr>heap := heap w @ [Some blk]\<rparr>"
  obtain p where p: "esb_string data = Some p" and lp: "load p w = Some sblk"
    using st by (auto simp: storage_def split: option.splits)
  have pl: "p < ?copy"
    using lp by (rule load_Some_less)
  have cap: "esb_allocated_size data \<noteq> 0"
    using v u by (auto simp: valid_def split: if_splits)
  have l0: "load ?copy w = None"
    by (simp add: load_def)
  have l1: "load ?copy ?w' = Some blk"
    by (simp add: load_def)
  have g: "esb_get_string data w = Inr (esb_string data, data, w)"
    using cap by (simp add: esb_get_string_def)
  have s0: "string_at (esb_string data) w = Some (c_str sblk)"
    using lp ns by (simp add: string_at_def p)
  have s1: "string_at (Some ?copy) ?w' = Some (c_str sblk)"
    using c_str_of_prefix [OF tk c_str_no_NUL] l1 by (simp add: string_at_def)
  have fr: "\<forall>c. c \<noteq> ?copy \<longrightarrow> load c ?w' = load c w"
    by (auto simp: load_def nth_append)
  have ho: "heap_only w ?w'"
    by (simp add: heap_only_def)
  have later: "\<forall>cs d2 w2. run cs (data, ?w') = Inr (d2, w2) \<longrightarrow>
              load ?copy w2 = Some blk \<and>
              (\<forall>d3 w3. esb_destructor d2 w2 = Inr (d3, w3) \<longrightarrow> load ?copy w3 = Some blk)"
  proof (intro allI impI)
    fix cs d2 w2
    assume run: "run cs (data, ?w') = Inr (d2, w2)"
    note e = run_evolves [OF run]
    have "?copy < length (heap ?w')"
      by simp
    moreover have "Some ?copy \<noteq> esb_string data"
      using pl p by simp
    ultimately have k: "load ?copy w2 = Some blk"
      using e l1 unfolding evolves_def by metis
    have "esb_string d2 = esb_string data \<or> (\<exists>a. esb_string d2 = Some a \<and> length (heap ?w') \<le> a)"
      using e unfolding evolves_def by blast
    then have ne: "Some ?copy \<noteq> esb_string d2"
      using pl p by auto
    show "load ?copy w2 = Some blk \<and>
          (\<forall>d3 w3. esb_destructor d2 w2 = Inr (d3, w3) \<longrightarrow> load ?copy w3 = Some blk)"
      using k esb_destructor_frame [OF _ ne] by auto
  qed
  show "\<exists>copy w' blk.
          esb_get_copy data w = Inr (Some copy, data, w') \<and>
          load copy w = None \<and> load copy w' = Some blk \<and>
          length blk = esb_string_len data + 1 \<and>
          esb_get_string data w = Inr (esb_string data, data, w) \<and>
          string_at (esb_string data) w \<noteq> None \<and>
          string_at (Some copy) w' = string_at (esb_string data) w \<and>
          (\<forall>c. c \<noteq> copy \<longrightarrow> load c w' = load c w) \<and>
          heap_only w w' \<and>
          (\<forall>cs d2 w2. run cs (data, w') = Inr (d2, w2) \<longrightarrow>
              load copy w2 = Some blk \<and>
              (\<forall>d3 w3. esb_destructor d2 w2 = Inr (d3, w3) \<longrightarrow> load copy w3 = Some blk))"
    using r l0 l1 lb g s0 s1 fr ho later
    by (intro exI [of _ ?copy] exI [of _ ?w'] exI [of _ blk]) (simp add: esb_string_len_def)
qed


theorem esb_get_copy_detached_witness:
  "valid \<lparr>esb_string = Some 0, esb_allocated_size = 4, esb_used_bytes = 3\<rparr>
     ((fresh_world 1)\<lparr>heap := [Some (''abc'' @ [NUL])]\<rparr>) \<and>
   esb_string_len \<lparr>esb_string = Some 0, esb_allocated_size = 4, esb_used_bytes = 3\<rparr> \<noteq> 0 \<and>
   esb_string_len \<lparr>esb_string = Some 0, esb_allocated_size = 4, esb_used_bytes = 3\<rparr> + 1
     \<le> avail ((fresh_world 1)\<lparr>heap := [Some (''abc'' @ [NUL])]\<rparr>) \<and>
   esb_get_copy \<lparr>esb_string = Some 0, esb_allocated_size = 4, esb_used_bytes = 3\<rparr>
       ((fresh_world 1)\<lparr>heap := [Some (''abc'' @ [NUL])]\<rparr>) =
     Inr (Some 1, \<lparr>esb_string = Some 0, esb_allocated_size = 4, esb_used_bytes = 3\<rparr>,
          (fresh_world 1)\<lparr>heap := [Some (''abc'' @ [NUL]), Some (''abc'' @ [NUL])]\<rparr>) \<and>
   run [Empty_string, Append (Some (''xy'' @ [NUL])), Append (Some (''zzz'' @ [NUL]))]
       (\<lparr>esb_string = Some 0, esb_allocated_size = 4, esb_used_bytes = 3\<rparr>,
        (fresh_world 1)\<lparr>heap := [Some (''abc'' @ [NUL]), Some (''abc'' @ [NUL])]\<rparr>) =
     Inr (\<lparr>esb_string = Some 2, esb_allocated_size = 7, esb_used_bytes = 5\<rparr>,
          (fresh_world 1)\<lparr>heap := [None, Some (''abc'' @ [NUL]),
                                     Some (''xyzzz'' @ [NUL] @ ''?'')]\<rparr>) \<and>
   esb_get_copy esb_constructor (fresh_world 1) = Inr (None, esb_constructor, fresh_world 1)"
  using esb_get_copy_detached
    [of "\<lparr>esb_string = Some 0, esb_allocated_size = 4, esb_used_bytes = 3\<rparr>"
        "(fresh_world 1)\<lparr>heap := [Some (''abc'' @ [NUL])]\<rparr>"]
    esb_get_copy_detached [of esb_constructor "fresh_world 1"]
  by (simp add: esb_defs libc_defs valid_def storage_def fresh_world_def Let_def
      map_replicate_const)

text \<open>
  C10. \<open>esb_append\<close> with the null pointer for its string changes nothing: the buffer
  (length, capacity, storage pointer) and the whole process state are returned as they
  were, whatever state the buffer is in.
\<close>

theorem esb_append_null_noop:
  "esb_append data None w = Inr (data, w)"
  by (simp add: esb_append_def)

end
